theory Spec2Isabelle
  imports Main "HOL-Library.Word"
begin

section \<open>Pattern trees\<close>

text \<open>
  The pattern AST that \<^verbatim>\<open>lib/Parse/ParsePattern.cpp\<close> builds. The last \<open>bool\<close> of
  every constructor is the node's implicit flag; a tuple holds its elements and its
  variadic flag before it. Source locations of nodes are not kept. Expressions and type
  annotations come from parsers outside this file; of an expression only what
  \<^verbatim>\<open>getDefaultArgKind\<close> inspects is kept.
\<close>

datatype MagicKind = Column | File | Line
datatype Expr = MagicIdentifierLiteralExpr MagicKind | OrdinaryExpr string
datatype ExprHandle = ExprHandle (getExpr: "Expr option")
datatype DefaultArgumentKind = DAK_None | DAK_Normal | DAK_Column | DAK_File | DAK_Line
datatype TypeRepr = NamedTypeRepr string | ErrorTypeRepr | TupleTypeRepr "TypeRepr list"

record VarDecl =
  getName :: string
  isLet :: bool
  declImplicit :: bool

datatype 'p TuplePatternElt =
  TuplePatternElt (getPattern: 'p) (getInit: "ExprHandle option") (getDefaultArgKind: DefaultArgumentKind)

datatype Pattern =
    AnyPattern bool
  | NamedPattern VarDecl bool
  | TuplePattern "Pattern TuplePatternElt list" bool bool
  | ParenPattern Pattern bool
  | TypedPattern Pattern TypeRepr bool
  | VarPattern Pattern bool
  | ExprPattern Expr bool
  | IsaPattern TypeRepr bool

text \<open>
  Modelled from the spec: \<^verbatim>\<open>Pattern::clone\<close> is defined outside this file. It is a
  deep copy, and with \<^verbatim>\<open>isImplicit\<close> set every new node (and every cloned binding
  declaration) is marked implicit.
\<close>

primrec clone :: "bool \<Rightarrow> Pattern \<Rightarrow> Pattern" where
  "clone Implicit (AnyPattern i) = AnyPattern (Implicit \<or> i)"
| "clone Implicit (NamedPattern d i) = NamedPattern (d\<lparr>declImplicit := Implicit \<or> declImplicit d\<rparr>) (Implicit \<or> i)"
| "clone Implicit (TuplePattern es v i) = TuplePattern (map (map_TuplePatternElt (clone Implicit)) es) v (Implicit \<or> i)"
| "clone Implicit (ParenPattern p i) = ParenPattern (clone Implicit p) (Implicit \<or> i)"
| "clone Implicit (TypedPattern p t i) = TypedPattern (clone Implicit p) t (Implicit \<or> i)"
| "clone Implicit (VarPattern p i) = VarPattern (clone Implicit p) (Implicit \<or> i)"
| "clone Implicit (ExprPattern e i) = ExprPattern e (Implicit \<or> i)"
| "clone Implicit (IsaPattern t i) = IsaPattern t (Implicit \<or> i)"

text \<open>
  The two callbacks of the local class \<^verbatim>\<open>ReplaceRoot\<close> in
  \<^verbatim>\<open>rebuildImplicitPatternAround\<close>.
\<close>

definition walkToPatternPre :: "Pattern \<Rightarrow> Pattern \<Rightarrow> bool \<times> Pattern" where
  "walkToPatternPre NewRoot P =
     (case P of TypedPattern s t i \<Rightarrow> (False, TypedPattern NewRoot t i)
              | _ \<Rightarrow> (True, P))"

definition walkToPatternPost :: "Pattern \<Rightarrow> Pattern \<Rightarrow> Pattern" where
  "walkToPatternPost NewRoot P =
     (case P of NamedPattern d i \<Rightarrow> NewRoot
              | AnyPattern i \<Rightarrow> NewRoot
              | _ \<Rightarrow> P)"

text \<open>
  Modelled from the spec: \<^verbatim>\<open>Pattern::walk\<close> is defined outside this file. It
  descends into every node: the pre-callback is called on entering a node and may stop
  the descent and give the node to use instead; otherwise the children are walked and
  replaced by what the walk returns, and the post-callback is called on leaving the
  node. \<open>walk\<close> is that traversal with the callbacks of \<^verbatim>\<open>ReplaceRoot\<close>; where the
  pre-callback lets the descent go on it has returned the node unchanged.
\<close>

primrec walk :: "Pattern \<Rightarrow> Pattern \<Rightarrow> Pattern" where
  "walk NewRoot (AnyPattern i) =
     (case walkToPatternPre NewRoot (AnyPattern i) of
        (False, P') \<Rightarrow> P'
      | (True, P') \<Rightarrow> walkToPatternPost NewRoot P')"
| "walk NewRoot (NamedPattern d i) =
     (case walkToPatternPre NewRoot (NamedPattern d i) of
        (False, P') \<Rightarrow> P'
      | (True, P') \<Rightarrow> walkToPatternPost NewRoot P')"
| "walk NewRoot (TuplePattern es v i) =
     (case walkToPatternPre NewRoot (TuplePattern es v i) of
        (False, P') \<Rightarrow> P'
      | (True, P') \<Rightarrow>
          walkToPatternPost NewRoot
            (TuplePattern (map (map_TuplePatternElt (walk NewRoot)) es) v i))"
| "walk NewRoot (ParenPattern p i) =
     (case walkToPatternPre NewRoot (ParenPattern p i) of
        (False, P') \<Rightarrow> P'
      | (True, P') \<Rightarrow> walkToPatternPost NewRoot (ParenPattern (walk NewRoot p) i))"
| "walk NewRoot (TypedPattern p t i) =
     (case walkToPatternPre NewRoot (TypedPattern p t i) of
        (False, P') \<Rightarrow> P'
      | (True, P') \<Rightarrow> walkToPatternPost NewRoot (TypedPattern (walk NewRoot p) t i))"
| "walk NewRoot (VarPattern p i) =
     (case walkToPatternPre NewRoot (VarPattern p i) of
        (False, P') \<Rightarrow> P'
      | (True, P') \<Rightarrow> walkToPatternPost NewRoot (VarPattern (walk NewRoot p) i))"
| "walk NewRoot (ExprPattern e i) =
     (case walkToPatternPre NewRoot (ExprPattern e i) of
        (False, P') \<Rightarrow> P'
      | (True, P') \<Rightarrow> walkToPatternPost NewRoot P')"
| "walk NewRoot (IsaPattern t i) =
     (case walkToPatternPre NewRoot (IsaPattern t i) of
        (False, P') \<Rightarrow> P'
      | (True, P') \<Rightarrow> walkToPatternPost NewRoot P')"

definition rebuildImplicitPatternAround :: "Pattern \<Rightarrow> Pattern \<Rightarrow> Pattern" where
  "rebuildImplicitPatternAround P NewRoot = walk NewRoot (clone True P)"

text \<open>
  The rewrite as the specification words it, in one pass: a \<open>Typed\<close> node keeps its
  type and gets the replacement as its subpattern, a \<open>Named\<close> or \<open>Any\<close> leaf becomes the
  replacement, every other node is copied and marked implicit.
\<close>

primrec rewriteSpec :: "Pattern \<Rightarrow> Pattern \<Rightarrow> Pattern" where
  "rewriteSpec R (AnyPattern i) = R"
| "rewriteSpec R (NamedPattern d i) = R"
| "rewriteSpec R (TuplePattern es v i) =
     TuplePattern (map (map_TuplePatternElt (rewriteSpec R)) es) v True"
| "rewriteSpec R (ParenPattern p i) = ParenPattern (rewriteSpec R p) True"
| "rewriteSpec R (TypedPattern p t i) = TypedPattern R t True"
| "rewriteSpec R (VarPattern p i) = VarPattern (rewriteSpec R p) True"
| "rewriteSpec R (ExprPattern e i) = ExprPattern e True"
| "rewriteSpec R (IsaPattern t i) = IsaPattern t True"

text \<open>
  The nesting shape of a pattern: tuples, parentheses and qualifiers with their
  children, a \<open>Typed\<close> node as a unit, and bindings and wildcards as leaves.
\<close>

datatype Shape = SLeaf | STuple "Shape list" | SParen Shape | STyped | SVar Shape | SExpr | SIsa

primrec shapeOf :: "Pattern \<Rightarrow> Shape" where
  "shapeOf (AnyPattern i) = SLeaf"
| "shapeOf (NamedPattern d i) = SLeaf"
| "shapeOf (TuplePattern es v i) = STuple (map getPattern (map (map_TuplePatternElt shapeOf) es))"
| "shapeOf (ParenPattern p i) = SParen (shapeOf p)"
| "shapeOf (TypedPattern p t i) = STyped"
| "shapeOf (VarPattern p i) = SVar (shapeOf p)"
| "shapeOf (ExprPattern e i) = SExpr"
| "shapeOf (IsaPattern t i) = SIsa"

fun isImplicit :: "Pattern \<Rightarrow> bool" where
  "isImplicit (AnyPattern i) = i"
| "isImplicit (NamedPattern d i) = i"
| "isImplicit (TuplePattern es v i) = i"
| "isImplicit (ParenPattern p i) = i"
| "isImplicit (TypedPattern p t i) = i"
| "isImplicit (VarPattern p i) = i"
| "isImplicit (ExprPattern e i) = i"
| "isImplicit (IsaPattern t i) = i"

text \<open>
  \<open>newNodesImplicit R Q\<close>: every node of \<open>Q\<close> outside the occurrences of \<open>R\<close> is
  marked implicit.
\<close>

primrec newNodesImplicit :: "Pattern \<Rightarrow> Pattern \<Rightarrow> bool" where
  "newNodesImplicit R (AnyPattern i) = (AnyPattern i = R \<or> i)"
| "newNodesImplicit R (NamedPattern d i) = (NamedPattern d i = R \<or> i)"
| "newNodesImplicit R (TuplePattern es v i) =
     (TuplePattern es v i = R \<or> (i \<and> list_all (\<lambda>e. pred_TuplePatternElt (newNodesImplicit R) e) es))"
| "newNodesImplicit R (ParenPattern p i) = (ParenPattern p i = R \<or> (i \<and> newNodesImplicit R p))"
| "newNodesImplicit R (TypedPattern p t i) = (TypedPattern p t i = R \<or> (i \<and> newNodesImplicit R p))"
| "newNodesImplicit R (VarPattern p i) = (VarPattern p i = R \<or> (i \<and> newNodesImplicit R p))"
| "newNodesImplicit R (ExprPattern e i) = (ExprPattern e i = R \<or> i)"
| "newNodesImplicit R (IsaPattern t i) = (IsaPattern t i = R \<or> i)"

section \<open>Tokens, diagnostics and parser state\<close>

datatype tok =
    tok_l_paren | tok_r_paren | tok_l_brace | tok_r_brace
  | tok_comma | tok_colon | tok_equal | tok_ellipsis | tok_arrow
  | tok_identifier string | tok_kw_underscore | tok_kw_let | tok_kw_var | tok_kw_is
  | tok_keyword string | tok_code_complete | tok_eof | tok_other string

fun isKeyword :: "tok \<Rightarrow> bool" where
  "isKeyword tok_kw_underscore = True"
| "isKeyword tok_kw_let = True"
| "isKeyword tok_kw_var = True"
| "isKeyword tok_kw_is = True"
| "isKeyword (tok_keyword s) = True"
| "isKeyword t = False"

fun is_identifier :: "tok \<Rightarrow> bool" where
  "is_identifier (tok_identifier s) = True"
| "is_identifier t = False"

fun getText :: "tok \<Rightarrow> string" where
  "getText (tok_identifier s) = s"
| "getText (tok_keyword s) = s"
| "getText (tok_other s) = s"
| "getText t = []"

datatype DiagID =
    non_func_decl_pattern_init | func_selector_without_paren
  | func_selector_with_not_one_argument | func_selector_with_curry
  | var_pattern_in_var | expected_pattern_is_keyword | expected_pattern
  | tuple_ellipsis_init | untyped_pattern_ellipsis | ellipsis_pattern_not_at_end
  | expected_rparen_tuple_pattern_list | invalid_redecl

datatype Diagnostic = Diagnostic (diagID: DiagID) (hasFixItRemove: bool)

datatype IVOLP = IVOLP_NotInVarOrLet | IVOLP_InVar | IVOLP_InLet

type_synonym SourceLoc = "nat option"

datatype DefaultArgumentContext = DefaultArgumentContext (ctxId: nat) (ctxArgIndex: "32 word")

text \<open>
  The parser state that the modelled functions read and write. \<open>Toks\<close> is the
  unconsumed input: its head is \<^verbatim>\<open>Tok\<close>, its second element is what
  \<^verbatim>\<open>peekToken\<close> returns, and past the end both are \<^verbatim>\<open>tok::eof\<close>. A source
  location is the number of tokens still unconsumed at that point, \<open>None\<close> being the
  invalid location. \<open>NextIndex\<close> and \<open>ParsedContexts\<close> are the two members of the one
  \<^verbatim>\<open>DefaultArgumentInfo\<close> object of a signature parse; a function that takes a
  \<^verbatim>\<open>DefaultArgumentInfo *\<close> takes a \<open>bool\<close> here, \<open>False\<close> for \<^verbatim>\<open>nullptr\<close>.
  \<open>CreatedContexts\<close> and \<open>DestroyedContexts\<close> log the calls of
  \<^verbatim>\<open>createDefaultArgumentContext\<close> and \<^verbatim>\<open>destroyDefaultArgumentContext\<close>.
  \<open>NextIndex\<close> and an argument index are \<^verbatim>\<open>unsigned\<close>, 32-bit words here: \<open>+\<close>
  wraps around as \<^verbatim>\<open>NextIndex++\<close> does.
\<close>

record Parser =
  Toks :: "tok list"
  Diags :: "Diagnostic list"
  InVarOrLetPattern :: IVOLP
  NextIndex :: "32 word"
  ParsedContexts :: "DefaultArgumentContext list"
  CreatedContexts :: "DefaultArgumentContext list"
  DestroyedContexts :: "DefaultArgumentContext list"

definition Tok :: "Parser \<Rightarrow> tok" where
  "Tok P = (case Toks P of [] \<Rightarrow> tok_eof | t # ts \<Rightarrow> t)"

definition peekToken :: "Parser \<Rightarrow> tok" where
  "peekToken P = (case Toks P of t # t' # ts \<Rightarrow> t' | _ \<Rightarrow> tok_eof)"

definition getLoc :: "Parser \<Rightarrow> SourceLoc" where
  "getLoc P = Some (length (Toks P))"

definition consumeToken :: "Parser \<Rightarrow> Parser" where
  "consumeToken P = P\<lparr>Toks := tl (Toks P)\<rparr>"

definition consumeIf :: "tok \<Rightarrow> Parser \<Rightarrow> bool \<times> Parser" where
  "consumeIf K P = (if Tok P = K then (True, consumeToken P) else (False, P))"

definition diagnose :: "Diagnostic \<Rightarrow> Parser \<Rightarrow> Parser" where
  "diagnose d P = P\<lparr>Diags := Diags P @ [d]\<rparr>"

text \<open>
  Modelled from the spec: \<^verbatim>\<open>ParserStatus\<close> and \<^verbatim>\<open>ParserResult\<close> are declared in
  headers outside this file. A status distinguishes clean success, failure and a
  completion request; combining statuses lets failure dominate and completion dominate
  failure. A result is a possibly null node together with a status; the null result
  carries the error status, and \<^verbatim>\<open>makeParserResult(Status, Node)\<close> keeps the node
  under any status, as \<^verbatim>\<open>parseConstructorArguments\<close> relies on when it recovers.
\<close>

datatype ParserStatus = ParserStatus (isError: bool) (hasCodeCompletion: bool)

definition makeParserSuccess :: ParserStatus where
  "makeParserSuccess = ParserStatus False False"

definition makeParserError :: ParserStatus where
  "makeParserError = ParserStatus True False"

definition makeParserCodeCompletionStatus :: ParserStatus where
  "makeParserCodeCompletionStatus = ParserStatus True True"

definition status_or :: "ParserStatus \<Rightarrow> ParserStatus \<Rightarrow> ParserStatus" where
  "status_or a b = ParserStatus (isError a \<or> isError b) (hasCodeCompletion a \<or> hasCodeCompletion b)"

definition setIsParseError :: "ParserStatus \<Rightarrow> ParserStatus" where
  "setIsParseError s = ParserStatus True (hasCodeCompletion s)"

datatype 'a ParserResult = ParserResult (getPtrOrNull: "'a option") (statusOf: ParserStatus)

definition isNull :: "'a ParserResult \<Rightarrow> bool" where
  "isNull r = (getPtrOrNull r = None)"

definition isNonNull :: "'a ParserResult \<Rightarrow> bool" where
  "isNonNull r = (getPtrOrNull r \<noteq> None)"

definition isParseError :: "'a ParserResult \<Rightarrow> bool" where
  "isParseError r = isError (statusOf r)"

definition resHasCodeCompletion :: "'a ParserResult \<Rightarrow> bool" where
  "resHasCodeCompletion r = hasCodeCompletion (statusOf r)"

definition nullResult :: "'a ParserResult" where
  "nullResult = ParserResult None makeParserError"

definition makeParserResult :: "'a \<Rightarrow> 'a ParserResult" where
  "makeParserResult x = ParserResult (Some x) makeParserSuccess"

definition makeParserErrorResult :: "'a \<Rightarrow> 'a ParserResult" where
  "makeParserErrorResult x = ParserResult (Some x) makeParserError"

definition makeParserCodeCompletionResult :: "'a ParserResult" where
  "makeParserCodeCompletionResult = ParserResult None makeParserCodeCompletionStatus"

definition makeParserResultStatus :: "ParserStatus \<Rightarrow> 'a \<Rightarrow> 'a ParserResult" where
  "makeParserResultStatus s x = ParserResult (Some x) s"

text \<open>
  The collaborators that live outside this file are parameters of the model: the
  expression parser (with what \<^verbatim>\<open>initScope.hasClosures()\<close> reports after it ran), the
  type-annotation parser, the statement and declaration lookahead tests and the two token
  skippers. Each works on the unconsumed tokens.
\<close>

record Collab =
  parseExpr :: "tok list \<Rightarrow> (Expr ParserResult \<times> bool) \<times> tok list"
  parseTypeAnnotation :: "tok list \<Rightarrow> TypeRepr ParserResult \<times> tok list"
  isStartOfStmt :: "tok \<Rightarrow> bool"
  isStartOfDecl :: "tok \<Rightarrow> tok \<Rightarrow> bool"
  skipSingle :: "tok list \<Rightarrow> tok list"
  skipUntilDeclRBrace :: "tok list \<Rightarrow> tok list"

section \<open>The pattern parser\<close>

text \<open>
  Every function that can loop or recurse takes fuel, and \<open>None\<close> is the answer of a
  run that does not return: fuel ran out, or an assertion of the source
  (\<^verbatim>\<open>assert\<close>, \<^verbatim>\<open>consumeToken(K)\<close> on another token, \<^verbatim>\<open>cast\<close> or \<^verbatim>\<open>dyn_cast\<close> on
  the wrong node, \<^verbatim>\<open>llvm_unreachable\<close>) stopped it.
\<close>

definition getDefaultArgKind_of :: "ExprHandle option \<Rightarrow> DefaultArgumentKind" where
  "getDefaultArgKind_of init =
     (case init of
        None \<Rightarrow> DAK_None
      | Some h \<Rightarrow>
          (case getExpr h of
             None \<Rightarrow> DAK_None
           | Some (MagicIdentifierLiteralExpr Column) \<Rightarrow> DAK_Column
           | Some (MagicIdentifierLiteralExpr File) \<Rightarrow> DAK_File
           | Some (MagicIdentifierLiteralExpr Line) \<Rightarrow> DAK_Line
           | Some (OrdinaryExpr e) \<Rightarrow> DAK_Normal))"

fun recoverLoop :: "nat \<Rightarrow> Collab \<Rightarrow> Parser \<Rightarrow> Parser option" where
  "recoverLoop 0 C P = None"
| "recoverLoop (Suc n) C P =
     (if Tok P \<noteq> tok_eof \<and> Tok P \<noteq> tok_r_paren \<and>
         Tok P \<noteq> tok_l_brace \<and> Tok P \<noteq> tok_r_brace \<and>
         \<not> isStartOfStmt C (Tok P) \<and>
         \<not> isStartOfDecl C (Tok P) (peekToken P)
      then recoverLoop n C (P\<lparr>Toks := skipSingle C (Toks P)\<rparr>)
      else Some P)"

definition recoverFromBadSelectorArgument :: "nat \<Rightarrow> Collab \<Rightarrow> Parser \<Rightarrow> Parser option" where
  "recoverFromBadSelectorArgument fuel C P =
     map_option (\<lambda>P'. snd (consumeIf tok_r_paren P')) (recoverLoop fuel C P)"

text \<open>
  \<^verbatim>\<open>parseDefaultArgument\<close>. The reference parameter \<^verbatim>\<open>init\<close> is passed in and
  handed back with the status.
\<close>

definition parseDefaultArgument ::
  "nat \<Rightarrow> Collab \<Rightarrow> bool \<Rightarrow> 32 word \<Rightarrow> ExprHandle option \<Rightarrow> Parser
     \<Rightarrow> ((ParserStatus \<times> ExprHandle option) \<times> Parser) option" where
  "parseDefaultArgument fuel C defaultArgs argIndex init P =
     (if Tok P \<noteq> tok_equal then None
      else
        let P1 = consumeToken P;
            initDC = DefaultArgumentContext (length (CreatedContexts P1)) argIndex;
            P2 = P1\<lparr>CreatedContexts := CreatedContexts P1 @ [initDC]\<rparr>;
            initR = fst (fst (parseExpr C (Toks P2)));
            hasClosures = snd (fst (parseExpr C (Toks P2)));
            P3 = P2\<lparr>Toks := snd (parseExpr C (Toks P2))\<rparr>;
            P4 = (if \<not> hasClosures
                  then P3\<lparr>DestroyedContexts := DestroyedContexts P3 @ [initDC]\<rparr>
                  else if defaultArgs
                  then P3\<lparr>ParsedContexts := ParsedContexts P3 @ [initDC]\<rparr>
                  else P3);
            P5 = (if \<not> defaultArgs
                  then diagnose (Diagnostic non_func_decl_pattern_init (isNonNull initR)) P4
                  else P4)
        in if resHasCodeCompletion initR
           then map_option (\<lambda>P'. ((makeParserCodeCompletionStatus, init), P'))
                  (recoverFromBadSelectorArgument fuel C P5)
           else if isNull initR
           then map_option (\<lambda>P'. ((makeParserError, init), P'))
                  (recoverFromBadSelectorArgument fuel C P5)
           else Some ((makeParserSuccess, Some (ExprHandle (getPtrOrNull initR))), P5))"

definition createBindingFromPattern :: "string \<Rightarrow> bool \<Rightarrow> Pattern" where
  "createBindingFromPattern name isLet' =
     NamedPattern \<lparr>getName = name, isLet = isLet', declImplicit = False\<rparr> False"

definition parsePatternIdentifier :: "bool \<Rightarrow> Parser \<Rightarrow> Pattern ParserResult \<times> Parser" where
  "parsePatternIdentifier isLet' P =
     (if Tok P = tok_kw_underscore then (makeParserResult (AnyPattern False), consumeToken P)
      else case Tok P of
             tok_identifier text \<Rightarrow>
               (makeParserResult (createBindingFromPattern text isLet'), consumeToken P)
           | _ \<Rightarrow> (nullResult, P))"

definition isAtStartOfBindingName :: "Collab \<Rightarrow> Parser \<Rightarrow> bool" where
  "isAtStartOfBindingName C P =
     (Tok P = tok_kw_underscore \<or>
      (is_identifier (Tok P) \<and> \<not> isStartOfDecl C (Tok P) (peekToken P)))"

text \<open>
  Modelled from the spec: \<^verbatim>\<open>TuplePattern::createSimple\<close> is defined outside this
  file. A \<open>Paren\<close> node is produced for a single, non-variadic parenthesized pattern; a
  \<open>Paren\<close> has no place for an initializer, and \<^verbatim>\<open>parseSelectorArgument\<close> reads the
  initializer of a one-field tuple, so a single element with an initializer stays a
  tuple.
\<close>

definition createSimple :: "Pattern TuplePatternElt list \<Rightarrow> bool \<Rightarrow> Pattern" where
  "createSimple elements hasVararg =
     (case elements of
        [e] \<Rightarrow> (if getInit e = None \<and> \<not> hasVararg then ParenPattern (getPattern e) False
                else TuplePattern elements hasVararg False)
      | _ \<Rightarrow> TuplePattern elements hasVararg False)"

text \<open>
  The recursive descent. \<open>parsePatternTupleCallback\<close> is the element callback that
  \<^verbatim>\<open>parsePatternTuple\<close> hands to \<^verbatim>\<open>parseList\<close>; its captured variables \<^verbatim>\<open>elts\<close> and
  \<^verbatim>\<open>EllipsisLoc\<close> are passed in and returned.

  Modelled from the spec: \<^verbatim>\<open>parseList\<close>, the comma-separated-list driver, is defined
  outside this file. \<open>parseList\<close> and \<open>parseListLoop\<close> are that driver at the arguments
  \<^verbatim>\<open>parsePatternTuple\<close> gives it: closing delimiter \<open>)\<close>, separator \<open>,\<close>, no trailing
  separator. An immediate \<open>)\<close> ends the empty list; after each element a \<open>)\<close> ends the
  list, a \<open>,\<close> continues it, and anything else is the missing closing parenthesis:
  diagnosed, a failure, the cursor left where it is.
\<close>

function (sequential) parsePattern :: "nat \<Rightarrow> Collab \<Rightarrow> bool \<Rightarrow> Parser \<Rightarrow> (Pattern ParserResult \<times> Parser) option"
and parsePatternVarOrLet :: "nat \<Rightarrow> Collab \<Rightarrow> Parser \<Rightarrow> (Pattern ParserResult \<times> Parser) option"
and parsePatternAtom :: "nat \<Rightarrow> Collab \<Rightarrow> bool \<Rightarrow> Parser \<Rightarrow> (Pattern ParserResult \<times> Parser) option"
and parsePatternTupleElement ::
  "nat \<Rightarrow> Collab \<Rightarrow> bool \<Rightarrow> bool \<Rightarrow> Parser
     \<Rightarrow> ((ParserStatus \<times> Pattern TuplePatternElt option) \<times> Parser) option"
and parsePatternTupleCallback ::
  "nat \<Rightarrow> Collab \<Rightarrow> bool \<Rightarrow> bool \<Rightarrow> Pattern TuplePatternElt list \<times> SourceLoc \<Rightarrow> Parser
     \<Rightarrow> (ParserStatus \<times> (Pattern TuplePatternElt list \<times> SourceLoc) \<times> Parser) option"
and parseList ::
  "nat \<Rightarrow> Collab \<Rightarrow> bool \<Rightarrow> bool \<Rightarrow> Parser
     \<Rightarrow> (ParserStatus \<times> (Pattern TuplePatternElt list \<times> SourceLoc) \<times> Parser) option"
and parseListLoop ::
  "nat \<Rightarrow> Collab \<Rightarrow> bool \<Rightarrow> bool \<Rightarrow> ParserStatus \<Rightarrow> Pattern TuplePatternElt list \<times> SourceLoc
     \<Rightarrow> Parser \<Rightarrow> (ParserStatus \<times> (Pattern TuplePatternElt list \<times> SourceLoc) \<times> Parser) option"
and parsePatternTuple ::
  "nat \<Rightarrow> Collab \<Rightarrow> bool \<Rightarrow> bool \<Rightarrow> Parser \<Rightarrow> (Pattern ParserResult \<times> Parser) option"
where
  "parsePattern 0 C isLet' P = None"
| "parsePattern (Suc n) C isLet' P =
     (if Tok P = tok_kw_let \<or> Tok P = tok_kw_var then parsePatternVarOrLet n C P
      else
        case parsePatternAtom n C isLet' P of
          None \<Rightarrow> None
        | Some (Result, P1) \<Rightarrow>
            if Tok P1 \<noteq> tok_colon then Some (Result, P1)
            else
              let P2 = consumeToken P1;
                  Result1 = (if isNull Result then makeParserErrorResult (AnyPattern False)
                             else Result);
                  Ty = fst (parseTypeAnnotation C (Toks P2));
                  P3 = P2\<lparr>Toks := snd (parseTypeAnnotation C (Toks P2))\<rparr>
              in if resHasCodeCompletion Ty then Some (makeParserCodeCompletionResult, P3)
                 else
                   let Ty1 = (if isNull Ty then makeParserResult ErrorTypeRepr else Ty)
                   in case (getPtrOrNull Result1, getPtrOrNull Ty1) of
                        (Some p, Some t) \<Rightarrow>
                          Some (makeParserResultStatus (statusOf Result1)
                                  (TypedPattern p t False), P3)
                      | _ \<Rightarrow> None)"
| "parsePatternVarOrLet 0 C P = None"
| "parsePatternVarOrLet (Suc n) C P =
     (if \<not> (Tok P = tok_kw_let \<or> Tok P = tok_kw_var) then None
      else
        let isLet' = (Tok P = tok_kw_let);
            P1 = consumeToken P;
            P2 = (if InVarOrLetPattern P1 \<noteq> IVOLP_NotInVarOrLet
                  then diagnose (Diagnostic var_pattern_in_var False) P1 else P1);
            saved = InVarOrLetPattern P2;
            P3 = P2\<lparr>InVarOrLetPattern := (if isLet' then IVOLP_InLet else IVOLP_InVar)\<rparr>
        in case parsePattern n C isLet' P3 of
             None \<Rightarrow> None
           | Some (subPattern, P4) \<Rightarrow>
               (case getPtrOrNull subPattern of
                  None \<Rightarrow> Some (nullResult, P4\<lparr>InVarOrLetPattern := saved\<rparr>)
                | Some p \<Rightarrow>
                    Some (makeParserResult (VarPattern p False),
                          P4\<lparr>InVarOrLetPattern := saved\<rparr>)))"
| "parsePatternAtom 0 C isLet' P = None"
| "parsePatternAtom (Suc n) C isLet' P =
     (if Tok P = tok_l_paren then parsePatternTuple n C False isLet' P
      else if is_identifier (Tok P) \<or> Tok P = tok_kw_underscore
      then Some (parsePatternIdentifier isLet' P)
      else if Tok P = tok_code_complete then Some (nullResult, consumeToken P)
      else if isKeyword (Tok P) \<and> (peekToken P = tok_colon \<or> peekToken P = tok_equal)
      then Some (makeParserErrorResult (AnyPattern False),
                 consumeToken (diagnose (Diagnostic expected_pattern_is_keyword False) P))
      else Some (nullResult, diagnose (Diagnostic expected_pattern False) P))"
| "parsePatternTupleElement 0 C defaultArgs isLet' P = None"
| "parsePatternTupleElement (Suc n) C defaultArgs isLet' P =
     (let defaultArgIndex = (if defaultArgs then NextIndex P else 0);
          P0 = (if defaultArgs then P\<lparr>NextIndex := NextIndex P + 1\<rparr> else P)
      in case parsePattern n C isLet' P0 of
           None \<Rightarrow> None
         | Some (pattern, P1) \<Rightarrow>
             if resHasCodeCompletion pattern
             then Some ((makeParserCodeCompletionStatus, None), P1)
             else
               (case getPtrOrNull pattern of
                  None \<Rightarrow> Some ((makeParserError, None), P1)
                | Some p \<Rightarrow>
                    if Tok P1 = tok_equal
                    then (case parseDefaultArgument n C defaultArgs defaultArgIndex None P1 of
                            None \<Rightarrow> None
                          | Some ((s, init), P2) \<Rightarrow>
                              Some ((makeParserSuccess,
                                     Some (TuplePatternElt p init (getDefaultArgKind_of init))),
                                    P2))
                    else Some ((makeParserSuccess,
                                Some (TuplePatternElt p None (getDefaultArgKind_of None))), P1)))"
| "parsePatternTupleCallback 0 C defaults isLet' acc P = None"
| "parsePatternTupleCallback (Suc n) C defaults isLet' acc P =
     (case parsePatternTupleElement n C defaults isLet' P of
        None \<Rightarrow> None
      | Some ((EltStatus, elt), P1) \<Rightarrow>
          if hasCodeCompletion EltStatus
          then Some (makeParserCodeCompletionStatus, acc, P1)
          else
            (case elt of
               None \<Rightarrow> Some (makeParserError, acc, P1)
             | Some e \<Rightarrow>
                 let elts = fst acc @ [e]
                 in if Tok P1 \<noteq> tok_ellipsis then Some (makeParserSuccess, (elts, snd acc), P1)
                    else
                      let ellLoc = getLoc P1;
                          P2 = consumeToken P1
                      in if getInit e \<noteq> None
                         then Some (makeParserSuccess, (elts, snd acc),
                                    diagnose (Diagnostic tuple_ellipsis_init False) P2)
                         else
                           (case getPattern e of
                              TypedPattern s t i \<Rightarrow>
                                if Tok P2 = tok_r_paren
                                then Some (makeParserSuccess, (elts, ellLoc), P2)
                                else Some (makeParserSuccess, (elts, snd acc),
                                           diagnose (Diagnostic ellipsis_pattern_not_at_end False) P2)
                            | _ \<Rightarrow>
                                Some (makeParserSuccess, (elts, snd acc),
                                      diagnose (Diagnostic untyped_pattern_ellipsis False) P2))))"
| "parseList 0 C defaults isLet' P = None"
| "parseList (Suc n) C defaults isLet' P =
     (if Tok P = tok_r_paren then Some (makeParserSuccess, ([], None), consumeToken P)
      else parseListLoop n C defaults isLet' makeParserSuccess ([], None) P)"
| "parseListLoop 0 C defaults isLet' Status acc P = None"
| "parseListLoop (Suc n) C defaults isLet' Status acc P =
     (case parsePatternTupleCallback n C defaults isLet' acc P of
        None \<Rightarrow> None
      | Some (s, acc1, P1) \<Rightarrow>
          if Tok P1 = tok_r_paren then Some (status_or Status s, acc1, consumeToken P1)
          else if Tok P1 = tok_comma
          then parseListLoop n C defaults isLet' (status_or Status s) acc1 (consumeToken P1)
          else Some (setIsParseError (status_or Status s), acc1,
                     diagnose (Diagnostic expected_rparen_tuple_pattern_list False) P1))"
| "parsePatternTuple 0 C defaults isLet' P = None"
| "parsePatternTuple (Suc n) C defaults isLet' P =
     (if Tok P \<noteq> tok_l_paren then None
      else
        case parseList n C defaults isLet' (consumeToken P) of
          None \<Rightarrow> None
        | Some (ListStatus, acc, P1) \<Rightarrow>
            Some (makeParserResultStatus ListStatus (createSimple (fst acc) (snd acc \<noteq> None)),
                  P1))"
  by pat_completeness simp_all
termination
  by (relation "measure (case_sum (case_sum (case_sum fst fst) (case_sum fst fst))
                                  (case_sum (case_sum fst fst) (case_sum fst fst)))")
     simp_all

section \<open>Function arguments\<close>

text \<open>
  Argument and body pattern lists hold \<^verbatim>\<open>Pattern *\<close>, which may be null: they are
  lists of \<open>Pattern option\<close>.
\<close>

fun parseCurriedFunctionArguments ::
  "nat \<Rightarrow> Collab \<Rightarrow> Pattern option list \<times> Pattern option list \<Rightarrow> Parser
     \<Rightarrow> (ParserStatus \<times> (Pattern option list \<times> Pattern option list) \<times> Parser) option" where
  "parseCurriedFunctionArguments 0 C pats P = None"
| "parseCurriedFunctionArguments (Suc n) C pats P =
     (if Tok P = tok_l_paren
      then case parsePatternTuple n C False True P of
             None \<Rightarrow> None
           | Some (pattern, P1) \<Rightarrow>
               if isNull pattern \<or> resHasCodeCompletion pattern
               then Some (statusOf pattern, pats, P1)
               else parseCurriedFunctionArguments n C
                      (fst pats @ [getPtrOrNull pattern], snd pats @ [getPtrOrNull pattern]) P1
      else Some (makeParserSuccess, pats, P))"

fun setImplicit :: "Pattern \<Rightarrow> Pattern" where
  "setImplicit (AnyPattern i) = AnyPattern True"
| "setImplicit (NamedPattern d i) = NamedPattern d True"
| "setImplicit (TuplePattern es v i) = TuplePattern es v True"
| "setImplicit (ParenPattern p i) = ParenPattern p True"
| "setImplicit (TypedPattern p t i) = TypedPattern p t True"
| "setImplicit (VarPattern p i) = VarPattern p True"
| "setImplicit (ExprPattern e i) = ExprPattern e True"
| "setImplicit (IsaPattern t i) = IsaPattern t True"

text \<open>
  \<^verbatim>\<open>parseSelectorArgument\<close>. The vectors \<^verbatim>\<open>argElts\<close> and \<^verbatim>\<open>bodyElts\<close> and the
  table \<^verbatim>\<open>selectorNames\<close> are passed in and returned; the closing-parenthesis
  location is not kept.
\<close>

definition parseSelectorArgument ::
  "nat \<Rightarrow> Collab
     \<Rightarrow> Pattern TuplePatternElt list \<times> Pattern TuplePatternElt list \<times> (string \<rightharpoonup> VarDecl)
     \<Rightarrow> Parser
     \<Rightarrow> (ParserStatus
          \<times> (Pattern TuplePatternElt list \<times> Pattern TuplePatternElt list \<times> (string \<rightharpoonup> VarDecl))
          \<times> Parser) option" where
  "parseSelectorArgument fuel C acc P =
     (let argElts = fst acc; bodyElts = fst (snd acc); selectorNames = snd (snd acc);
          ArgPatternRes = fst (parsePatternIdentifier True P);
          P1 = snd (parsePatternIdentifier True P)
      in case getPtrOrNull ArgPatternRes of
           None \<Rightarrow> None
         | Some ArgPattern0 \<Rightarrow>
             let ArgPattern =
                   (case setImplicit ArgPattern0 of
                      NamedPattern decl i \<Rightarrow> NamedPattern (decl\<lparr>declImplicit := True\<rparr>) i
                    | q \<Rightarrow> q);
                 selectorNames1 =
                   (case ArgPattern of
                      NamedPattern decl i \<Rightarrow>
                        (case selectorNames (getName decl) of
                           Some prevName \<Rightarrow> selectorNames
                         | None \<Rightarrow> selectorNames(getName decl \<mapsto> decl))
                    | q \<Rightarrow> selectorNames);
                 P2 =
                   (case ArgPattern of
                      NamedPattern decl i \<Rightarrow>
                        (case selectorNames (getName decl) of
                           Some prevName \<Rightarrow> diagnose (Diagnostic invalid_redecl False) P1
                         | None \<Rightarrow> P1)
                    | q \<Rightarrow> P1)
             in if Tok P2 \<noteq> tok_l_paren
                then Some (makeParserError, (argElts, bodyElts, selectorNames1),
                           diagnose (Diagnostic func_selector_without_paren False) P2)
                else
                  case parsePatternTuple fuel C True True P2 of
                    None \<Rightarrow> None
                  | Some (PatternRes, P3) \<Rightarrow>
                      (case getPtrOrNull PatternRes of
                         None \<Rightarrow>
                           if isParseError PatternRes
                           then map_option
                                  (\<lambda>P'. (statusOf PatternRes,
                                         (argElts, bodyElts, selectorNames1), P'))
                                  (recoverFromBadSelectorArgument fuel C P3)
                           else Some (statusOf PatternRes,
                                      (argElts, bodyElts, selectorNames1), P3)
                       | Some (ParenPattern sub i) \<Rightarrow>
                           let TPE = TuplePatternElt sub None DAK_None
                           in Some (makeParserSuccess,
                                    (argElts @
                                       [TuplePatternElt
                                          (rebuildImplicitPatternAround (getPattern TPE) ArgPattern)
                                          (getInit TPE) (getDefaultArgKind_of (getInit TPE))],
                                     bodyElts @ [TPE], selectorNames1), P3)
                       | Some (TuplePattern flds v i) \<Rightarrow>
                           (case flds of
                              [TPE] \<Rightarrow>
                                if v
                                then Some (makeParserError, (argElts, bodyElts, selectorNames1),
                                           diagnose
                                             (Diagnostic func_selector_with_not_one_argument False)
                                             P3)
                                else Some (makeParserSuccess,
                                    (argElts @
                                       [TuplePatternElt
                                          (rebuildImplicitPatternAround (getPattern TPE) ArgPattern)
                                          (getInit TPE) (getDefaultArgKind_of (getInit TPE))],
                                     bodyElts @ [TPE], selectorNames1), P3)
                            | _ \<Rightarrow>
                                Some (makeParserError, (argElts, bodyElts, selectorNames1),
                                      diagnose
                                        (Diagnostic func_selector_with_not_one_argument False) P3))
                       | Some q \<Rightarrow> None))"

definition getFirstSelectorPattern :: "Pattern \<Rightarrow> Pattern" where
  "getFirstSelectorPattern argPattern =
     rebuildImplicitPatternAround argPattern (AnyPattern True)"

text \<open>
  The \<^verbatim>\<open>for (;;)\<close> loop of \<^verbatim>\<open>parseSelectorFunctionArguments\<close>, on the local
  variables \<^verbatim>\<open>ArgElts\<close>, \<^verbatim>\<open>BodyElts\<close>, \<^verbatim>\<open>SelectorNames\<close> and \<^verbatim>\<open>Status\<close>.
\<close>

fun selectorLoop ::
  "nat \<Rightarrow> Collab
     \<Rightarrow> Pattern TuplePatternElt list \<times> Pattern TuplePatternElt list \<times> (string \<rightharpoonup> VarDecl)
     \<Rightarrow> ParserStatus \<Rightarrow> Parser
     \<Rightarrow> (ParserStatus
          \<times> (Pattern TuplePatternElt list \<times> Pattern TuplePatternElt list \<times> (string \<rightharpoonup> VarDecl))
          \<times> Parser) option" where
  "selectorLoop 0 C acc Status P = None"
| "selectorLoop (Suc n) C acc Status P =
     (if isAtStartOfBindingName C P
      then case parseSelectorArgument n C acc P of
             None \<Rightarrow> None
           | Some (s, acc1, P1) \<Rightarrow> selectorLoop n C acc1 (status_or Status s) P1
      else if Tok P = tok_l_paren
      then Some (setIsParseError Status, acc,
                 (diagnose (Diagnostic func_selector_with_curry False) P)
                   \<lparr>Toks := skipUntilDeclRBrace C (Toks P)\<rparr>)
      else Some (Status, acc, P))"

definition firstSelectorElts ::
  "Pattern option \<Rightarrow> Parser
     \<Rightarrow> ((Pattern TuplePatternElt list \<times> Pattern TuplePatternElt list) \<times> Parser) option" where
  "firstSelectorElts FirstPattern P =
     (case FirstPattern of
        None \<Rightarrow> None
      | Some (ParenPattern sub i) \<Rightarrow>
          Some (([TuplePatternElt (getFirstSelectorPattern sub) None DAK_None],
                 [TuplePatternElt sub None DAK_None]), P)
      | Some (TuplePattern flds v i) \<Rightarrow>
          (let P1 = (if length flds \<noteq> 1
                     then diagnose (Diagnostic func_selector_with_not_one_argument False) P
                     else P)
           in case flds of
                FirstElt # rest \<Rightarrow>
                  Some (([TuplePatternElt (getFirstSelectorPattern (getPattern FirstElt))
                            (getInit FirstElt) (getDefaultArgKind FirstElt)],
                         [FirstElt]), P1)
              | [] \<Rightarrow>
                  (let FirstElt =
                         TuplePatternElt (TypedPattern (AnyPattern False) (TupleTypeRepr []) False)
                           None DAK_None
                   in Some (([FirstElt], [FirstElt]), P1)))
      | Some q \<Rightarrow> None)"

definition parseSelectorFunctionArguments ::
  "nat \<Rightarrow> Collab \<Rightarrow> Pattern option list \<times> Pattern option list \<Rightarrow> Pattern option \<Rightarrow> Parser
     \<Rightarrow> (ParserStatus \<times> (Pattern option list \<times> Pattern option list) \<times> Parser) option" where
  "parseSelectorFunctionArguments fuel C pats FirstPattern P =
     (case firstSelectorElts FirstPattern P of
        None \<Rightarrow> None
      | Some ((ArgElts0, BodyElts0), P1) \<Rightarrow>
          (case selectorLoop fuel C (ArgElts0, BodyElts0, Map.empty) makeParserSuccess P1 of
             None \<Rightarrow> None
           | Some (Status, (ArgElts, BodyElts, SelectorNames), P2) \<Rightarrow>
               Some (Status,
                     (fst pats @ [Some (TuplePattern ArgElts False True)],
                      snd pats @ [Some (TuplePattern BodyElts False False)]), P2)))"

text \<open>
  \<^verbatim>\<open>parseFunctionArguments\<close> parses the first clause and goes on with its result;
  \<open>parseFunctionArgumentsFrom\<close> is the function from that point, so that its behaviour
  can be stated for any result of the first clause.
\<close>

definition parseFunctionArgumentsFrom ::
  "nat \<Rightarrow> Collab \<Rightarrow> Pattern ParserResult \<Rightarrow> Pattern option list \<times> Pattern option list
     \<Rightarrow> bool \<Rightarrow> Parser
     \<Rightarrow> (ParserStatus \<times> (Pattern option list \<times> Pattern option list) \<times> bool \<times> Parser) option" where
  "parseFunctionArgumentsFrom fuel C FirstPattern pats HasSelectorStyleSignature P =
     (let EmptyTuplePattern = TuplePattern [] False False;
          pats1 = (if isNull FirstPattern
                   then (fst pats @ [Some EmptyTuplePattern], snd pats @ [Some EmptyTuplePattern])
                   else pats)
      in if isAtStartOfBindingName C P
         then map_option
                (\<lambda>r. (status_or (statusOf FirstPattern) (fst r), fst (snd r), True, snd (snd r)))
                (parseSelectorFunctionArguments fuel C pats1 (getPtrOrNull FirstPattern) P)
         else map_option
                (\<lambda>r. (status_or (statusOf FirstPattern) (fst r), fst (snd r),
                       HasSelectorStyleSignature, snd (snd r)))
                (parseCurriedFunctionArguments fuel C
                   (fst pats1 @ [getPtrOrNull FirstPattern],
                    snd pats1 @ [getPtrOrNull FirstPattern]) P))"

definition parseFunctionArguments ::
  "nat \<Rightarrow> Collab \<Rightarrow> Pattern option list \<times> Pattern option list \<Rightarrow> bool \<Rightarrow> Parser
     \<Rightarrow> (ParserStatus \<times> (Pattern option list \<times> Pattern option list) \<times> bool \<times> Parser) option" where
  "parseFunctionArguments fuel C pats HasSelectorStyleSignature P =
     (case parsePatternTuple fuel C True True P of
        None \<Rightarrow> None
      | Some (FirstPattern, P1) \<Rightarrow>
          parseFunctionArgumentsFrom fuel C FirstPattern pats HasSelectorStyleSignature P1)"

section \<open>A concrete set of collaborators\<close>

text \<open>
  For the concrete runs below: an expression is one literal token, \<open>__LINE__\<close>, or the
  closure \<open>{ }\<close>; a type annotation is one identifier; nothing starts a statement or a
  declaration; \<open>skipSingle\<close> drops one token.
\<close>

definition exampleParseExpr :: "tok list \<Rightarrow> (Expr ParserResult \<times> bool) \<times> tok list" where
  "exampleParseExpr ts =
     (case ts of
        tok_other s # rest \<Rightarrow> ((makeParserResult (OrdinaryExpr s), False), rest)
      | tok_keyword s # rest \<Rightarrow>
          (if s = ''__LINE__''
           then ((makeParserResult (MagicIdentifierLiteralExpr Line), False), rest)
           else ((nullResult, False), ts))
      | tok_l_brace # tok_r_brace # rest \<Rightarrow> ((makeParserResult (OrdinaryExpr ''{}''), True), rest)
      | tok_code_complete # rest \<Rightarrow> ((makeParserCodeCompletionResult, False), rest)
      | _ \<Rightarrow> ((nullResult, False), ts))"

definition exampleParseTypeAnnotation :: "tok list \<Rightarrow> TypeRepr ParserResult \<times> tok list" where
  "exampleParseTypeAnnotation ts =
     (case ts of
        tok_identifier s # rest \<Rightarrow> (makeParserResult (NamedTypeRepr s), rest)
      | tok_code_complete # rest \<Rightarrow> (makeParserCodeCompletionResult, rest)
      | _ \<Rightarrow> (nullResult, ts))"

definition exampleCollab :: Collab where
  "exampleCollab =
     \<lparr>parseExpr = exampleParseExpr,
      parseTypeAnnotation = exampleParseTypeAnnotation,
      isStartOfStmt = (\<lambda>t. False),
      isStartOfDecl = (\<lambda>t t'. False),
      skipSingle = tl,
      skipUntilDeclRBrace = dropWhile (\<lambda>t. t \<noteq> tok_r_brace)\<rparr>"

definition initialParser :: "tok list \<Rightarrow> Parser" where
  "initialParser ts =
     \<lparr>Toks = ts, Diags = [], InVarOrLetPattern = IVOLP_NotInVarOrLet, NextIndex = 0,
      ParsedContexts = [], CreatedContexts = [], DestroyedContexts = []\<rparr>"

section \<open>Auxiliary notions for the proofs\<close>

text \<open>
  What the proofs ask of the collaborators: none of them puts tokens back, and
  \<^verbatim>\<open>skipSingle\<close> skips at least one token of a non-empty input.
\<close>

definition collabProgress :: "Collab \<Rightarrow> bool" where
  "collabProgress C \<longleftrightarrow>
     (\<forall>ts. length (snd (parseExpr C ts)) \<le> length ts) \<and>
     (\<forall>ts. length (snd (parseTypeAnnotation C ts)) \<le> length ts) \<and>
     (\<forall>ts. ts \<noteq> [] \<longrightarrow> length (skipSingle C ts) < length ts)"

text \<open>
  The parser state of \<^verbatim>\<open>parseDefaultArgument\<close> once the initializer has been
  parsed, its context settled and the diagnostic emitted; \<open>P\<close> is the state at the
  \<open>=\<close> token.
\<close>

definition afterInit :: "Collab \<Rightarrow> bool \<Rightarrow> 32 word \<Rightarrow> Parser \<Rightarrow> Parser" where
  "afterInit C defaultArgs argIndex P =
    (let initDC = DefaultArgumentContext (length (CreatedContexts P)) argIndex;
         e = parseExpr C (tl (Toks P));
         P3 = P\<lparr>CreatedContexts := CreatedContexts P @ [initDC], Toks := snd e\<rparr>;
         P4 = (if \<not> snd (fst e)
                  then P3\<lparr>DestroyedContexts := DestroyedContexts P3 @ [initDC]\<rparr>
                  else if defaultArgs
                  then P3\<lparr>ParsedContexts := ParsedContexts P3 @ [initDC]\<rparr>
                  else P3)
     in if \<not> defaultArgs
        then diagnose (Diagnostic non_func_decl_pattern_init (isNonNull (fst (fst e)))) P4
        else P4)"

text \<open>
  \<open>lenOK1\<close> and \<open>lenOK2\<close>: a run that returns has not lengthened the input.
\<close>

definition lenOK1 :: "Parser \<Rightarrow> ('a \<times> Parser) option \<Rightarrow> bool" where
  "lenOK1 P r = (case r of None \<Rightarrow> True | Some (x, P') \<Rightarrow> length (Toks P') \<le> length (Toks P))"

definition lenOK2 :: "Parser \<Rightarrow> ('a \<times> 'b \<times> Parser) option \<Rightarrow> bool" where
  "lenOK2 P r = (case r of None \<Rightarrow> True | Some (x, y, P') \<Rightarrow> length (Toks P') \<le> length (Toks P))"

text \<open>
  \<open>le_opt a b\<close>: the run with more fuel \<open>b\<close> agrees with the run \<open>a\<close> wherever \<open>a\<close>
  returns.
\<close>

definition le_opt :: "'a option \<Rightarrow> 'a option \<Rightarrow> bool" where
  "le_opt a b = (a = None \<or> a = b)"

section \<open>Selector-style signatures, as the grammar reads them\<close>

text \<open>
  A selector clause is a binding name, the label, followed by a parenthesized pattern.
  \<open>labelNode\<close> is the implicit label node of a label token; \<open>afterLabel\<close> is the
  parser state once the label is consumed (a repeated name is diagnosed) and
  \<open>namesAfter\<close> the table of names seen; \<open>innerElt\<close> is the single element inside the
  clause's parentheses, when there is exactly one and it is not variadic;
  \<open>firstBodyElt\<close> is the single element of the first clause. \<open>argElt label e\<close> is the
  argument-side element for the body-side element \<open>e\<close>.

  \<open>validClauses C names P cl P'\<close>: from state \<open>P\<close> the input reads as the clauses
  \<open>cl\<close>, each a label token and the element inside its parentheses, and ends in state
  \<open>P'\<close> at a token that starts neither a binding name nor a parenthesis.
\<close>

definition labelNode :: "tok \<Rightarrow> Pattern" where
  "labelNode t =
     (case t of
        tok_identifier s \<Rightarrow> NamedPattern \<lparr>getName = s, isLet = True, declImplicit = True\<rparr> True
      | _ \<Rightarrow> AnyPattern True)"

definition afterLabel :: "(string \<rightharpoonup> VarDecl) \<Rightarrow> Parser \<Rightarrow> Parser" where
  "afterLabel names P =
     (case Tok P of
        tok_identifier s \<Rightarrow>
          (if names s = None then consumeToken P
           else diagnose (Diagnostic invalid_redecl False) (consumeToken P))
      | _ \<Rightarrow> consumeToken P)"

definition namesAfter :: "(string \<rightharpoonup> VarDecl) \<Rightarrow> tok \<Rightarrow> (string \<rightharpoonup> VarDecl)" where
  "namesAfter names t =
     (case t of
        tok_identifier s \<Rightarrow>
          (if names s = None
           then names(s \<mapsto> \<lparr>getName = s, isLet = True, declImplicit = True\<rparr>)
           else names)
      | _ \<Rightarrow> names)"

definition innerElt :: "Pattern \<Rightarrow> Pattern TuplePatternElt option" where
  "innerElt p =
     (case p of
        ParenPattern sub i \<Rightarrow> Some (TuplePatternElt sub None DAK_None)
      | TuplePattern es v i \<Rightarrow> (case es of [e] \<Rightarrow> (if v then None else Some e) | _ \<Rightarrow> None)
      | _ \<Rightarrow> None)"

definition argElt :: "Pattern \<Rightarrow> Pattern TuplePatternElt \<Rightarrow> Pattern TuplePatternElt" where
  "argElt label e =
     TuplePatternElt (rewriteSpec label (getPattern e)) (getInit e)
       (getDefaultArgKind_of (getInit e))"

inductive validClauses ::
  "Collab \<Rightarrow> (string \<rightharpoonup> VarDecl) \<Rightarrow> Parser \<Rightarrow> (tok \<times> Pattern TuplePatternElt) list \<Rightarrow> Parser \<Rightarrow> bool"
  for C :: Collab where
  noClause:
    "\<not> isAtStartOfBindingName C P \<Longrightarrow> Tok P \<noteq> tok_l_paren \<Longrightarrow> validClauses C names P [] P"
| clause:
    "isAtStartOfBindingName C P \<Longrightarrow>
     parsePatternTuple n C True True (afterLabel names P) = Some (res, P3) \<Longrightarrow>
     getPtrOrNull res = Some pat \<Longrightarrow> innerElt pat = Some e \<Longrightarrow>
     validClauses C (namesAfter names (Tok P)) P3 cl P' \<Longrightarrow>
     validClauses C names P ((Tok P, e) # cl) P'"

text \<open>
  The leaf patterns of a pattern: its bindings and wildcards.
\<close>

primrec leavesOf :: "Pattern \<Rightarrow> Pattern list" where
  "leavesOf (AnyPattern i) = [AnyPattern i]"
| "leavesOf (NamedPattern d i) = [NamedPattern d i]"
| "leavesOf (TuplePattern es v i) = concat (map getPattern (map (map_TuplePatternElt leavesOf) es))"
| "leavesOf (ParenPattern p i) = leavesOf p"
| "leavesOf (TypedPattern p t i) = leavesOf p"
| "leavesOf (VarPattern p i) = leavesOf p"
| "leavesOf (ExprPattern e i) = []"
| "leavesOf (IsaPattern t i) = []"

definition firstBodyElt :: "Pattern \<Rightarrow> Pattern TuplePatternElt option" where
  "firstBodyElt p =
     (case p of
        ParenPattern sub i \<Rightarrow> Some (TuplePatternElt sub None DAK_None)
      | TuplePattern es v i \<Rightarrow> (case es of [e] \<Rightarrow> Some e | _ \<Rightarrow> None)
      | _ \<Rightarrow> None)"

text \<open>
  The number of leaf positions of a pattern, the places the rewrite fills with the
  replacement: its bindings and wildcards outside typed nodes, and its typed nodes.
\<close>

primrec leafPositions :: "Pattern \<Rightarrow> nat" where
  "leafPositions (AnyPattern i) = 1"
| "leafPositions (NamedPattern d i) = 1"
| "leafPositions (TuplePattern es v i) =
     sum_list (map getPattern (map (map_TuplePatternElt leafPositions) es))"
| "leafPositions (ParenPattern p i) = leafPositions p"
| "leafPositions (TypedPattern p t i) = 1"
| "leafPositions (VarPattern p i) = leafPositions p"
| "leafPositions (ExprPattern e i) = 0"
| "leafPositions (IsaPattern t i) = 0"

section \<open>The mutability of bindings\<close>

text \<open>
  \<open>bindsAs l p\<close>: every binding of the pattern \<open>p\<close> that is not under a qualifier of
  its own is a \<open>let\<close> binding when \<open>l\<close> holds and a \<open>var\<close> binding otherwise.
  \<open>resBindsAs\<close> and \<open>eltsBindAs\<close> say so of a parse result and of a list of tuple
  elements.
\<close>

primrec bindsAs :: "bool \<Rightarrow> Pattern \<Rightarrow> bool" where
  "bindsAs l (AnyPattern i) = True"
| "bindsAs l (NamedPattern d i) = (isLet d = l)"
| "bindsAs l (TuplePattern es v i) = list_all (pred_TuplePatternElt (bindsAs l)) es"
| "bindsAs l (ParenPattern p i) = bindsAs l p"
| "bindsAs l (TypedPattern p t i) = bindsAs l p"
| "bindsAs l (VarPattern p i) = True"
| "bindsAs l (ExprPattern e i) = True"
| "bindsAs l (IsaPattern t i) = True"

definition resBindsAs :: "bool \<Rightarrow> (Pattern ParserResult \<times> Parser) option \<Rightarrow> bool" where
  "resBindsAs l r =
     (case r of None \<Rightarrow> True
      | Some (res, P') \<Rightarrow> (case getPtrOrNull res of None \<Rightarrow> True | Some p \<Rightarrow> bindsAs l p))"

definition eltsBindAs :: "bool \<Rightarrow> Pattern TuplePatternElt list \<Rightarrow> bool" where
  "eltsBindAs l es = list_all (pred_TuplePatternElt (bindsAs l)) es"

section \<open>Notions for the default-argument counter\<close>

text \<open>
  \<open>advances j P P'\<close>: from \<open>P\<close> to \<open>P'\<close> the manager's counter has moved on by \<open>j\<close> and
  contexts have only been created, none forgotten.
\<close>

definition advances :: "32 word \<Rightarrow> Parser \<Rightarrow> Parser \<Rightarrow> bool" where
  "advances j P P' \<longleftrightarrow>
     NextIndex P' = NextIndex P + j \<and> (\<exists>cs. CreatedContexts P' = CreatedContexts P @ cs)"

text \<open>
  \<open>eltContexts k es ctxss\<close>: \<open>ctxss\<close> holds one group of contexts for each element of
  \<open>es\<close>, and the group of every element \<open>i\<close> that has an initializer ends with a
  context of index \<open>k + i\<close>.
\<close>

definition eltContexts ::
  "32 word \<Rightarrow> Pattern TuplePatternElt list \<Rightarrow> DefaultArgumentContext list list \<Rightarrow> bool" where
  "eltContexts k es ctxss \<longleftrightarrow>
     length ctxss = length es \<and>
     (\<forall>i<length es. getInit (es ! i) \<noteq> None \<longrightarrow>
        ctxss ! i \<noteq> [] \<and> ctxArgIndex (last (ctxss ! i)) = k + of_nat i)"

section \<open>Valid tuple inputs\<close>

text \<open>
  \<open>isTyped p\<close>: the node \<open>p\<close> is a \<open>Typed\<close> pattern, what \<^verbatim>\<open>dyn_cast<TypedPattern>\<close>
  tests.
\<close>

definition isTyped :: "Pattern \<Rightarrow> bool" where
  "isTyped p = (case p of TypedPattern q t i \<Rightarrow> True | _ \<Rightarrow> False)"

text \<open>
  What the element callback is to do with an ellipsis that follows the element \<open>e\<close>,
  \<open>P\<close> being the state at the ellipsis: \<open>afterEllipsis e P\<close> is the state once the
  ellipsis is consumed and, unless it is accepted, diagnosed; \<open>ellipsisAccepted e P\<close>
  says that it is accepted: the element has no initializer, is \<open>Typed\<close>, and the closing
  parenthesis follows.
\<close>

definition afterEllipsis :: "Pattern TuplePatternElt \<Rightarrow> Parser \<Rightarrow> Parser" where
  "afterEllipsis e P =
     (if getInit e \<noteq> None
      then diagnose (Diagnostic tuple_ellipsis_init False) (consumeToken P)
      else if \<not> isTyped (getPattern e)
      then diagnose (Diagnostic untyped_pattern_ellipsis False) (consumeToken P)
      else if Tok (consumeToken P) \<noteq> tok_r_paren
      then diagnose (Diagnostic ellipsis_pattern_not_at_end False) (consumeToken P)
      else consumeToken P)"

definition ellipsisAccepted :: "Pattern TuplePatternElt \<Rightarrow> Parser \<Rightarrow> bool" where
  "ellipsisAccepted e P \<longleftrightarrow>
     Tok P = tok_ellipsis \<and> getInit e = None \<and> isTyped (getPattern e) \<and>
     Tok (consumeToken P) = tok_r_paren"

text \<open>
  \<open>validElements C d l P es P'\<close>: from \<open>P\<close> the input reads as the elements \<open>es\<close>,
  each parsed by \<open>parsePatternTupleElement\<close> and separated from the next by a comma;
  \<open>P'\<close> is the state after the last element.
\<close>

inductive validElements ::
  "Collab \<Rightarrow> bool \<Rightarrow> bool \<Rightarrow> Parser \<Rightarrow> Pattern TuplePatternElt list \<Rightarrow> Parser \<Rightarrow> bool"
  for C :: Collab and d :: bool and l :: bool where
  lastElement:
    "parsePatternTupleElement n C d l P = Some ((s, Some e), P1) \<Longrightarrow>
     validElements C d l P [e] P1"
| moreElements:
    "parsePatternTupleElement n C d l P = Some ((s, Some e), P1) \<Longrightarrow>
     Tok P1 = tok_comma \<Longrightarrow>
     validElements C d l (consumeToken P1) es P' \<Longrightarrow>
     validElements C d l P (e # es) P'"

lemma newNodesImplicit_self: "newNodesImplicit R R"
  by (cases R) simp_all

lemma rebuild_eq: "walk R (clone True P) = rewriteSpec R P"
  by (induction P) (simp_all add: walkToPatternPre_def walkToPatternPost_def TuplePatternElt.map_comp comp_def cong: map_cong TuplePatternElt.map_cong)

lemma rewrite_implicit: "newNodesImplicit R (rewriteSpec R P)"
  by (induction P) (auto simp: newNodesImplicit_self list_all_iff TuplePatternElt.pred_set TuplePatternElt.set_map)

lemma rewrite_shape: "shapeOf R = SLeaf \<Longrightarrow> shapeOf (rewriteSpec R P) = shapeOf P"
proof (induction P)
  case (TuplePattern es v i)
  have "shapeOf (rewriteSpec R (getPattern e)) = shapeOf (getPattern e)" if "e \<in> set es" for e
    by (cases e) (use that TuplePattern in auto)
  then show ?case by (simp add: comp_def TuplePatternElt.map_sel)
qed simp_all

section \<open>Termination: enough fuel always suffices\<close>

lemma Tok_nonempty: "Tok P \<noteq> tok_eof \<Longrightarrow> Toks P \<noteq> []"
  by (auto simp: Tok_def)

lemma len_consumeToken: "length (Toks (consumeToken P)) \<le> length (Toks P)"
  by (simp add: consumeToken_def)

lemma len_consumeToken_lt: "Tok P \<noteq> tok_eof \<Longrightarrow> length (Toks (consumeToken P)) < length (Toks P)"
  by (cases "Toks P") (auto simp: consumeToken_def Tok_def)

lemma Toks_diagnose [simp]: "Toks (diagnose d P) = Toks P"
  by (simp add: diagnose_def)

lemma recoverLoop_total:
  "collabProgress C \<Longrightarrow> length (Toks P) < n \<Longrightarrow>
   \<exists>P'. recoverLoop n C P = Some P' \<and> length (Toks P') \<le> length (Toks P)"
proof (induction n arbitrary: P)
  case 0
  then show ?case by simp
next
  case (Suc n)
  show ?case
  proof (cases "Tok P \<noteq> tok_eof \<and> Tok P \<noteq> tok_r_paren \<and>
         Tok P \<noteq> tok_l_brace \<and> Tok P \<noteq> tok_r_brace \<and>
         \<not> isStartOfStmt C (Tok P) \<and>
         \<not> isStartOfDecl C (Tok P) (peekToken P)")
    case True
    then have ne: "Toks P \<noteq> []" by (simp add: Tok_nonempty)
    with Suc.prems have lt: "length (skipSingle C (Toks P)) < length (Toks P)"
      by (simp add: collabProgress_def)
    let ?P1 = "P\<lparr>Toks := skipSingle C (Toks P)\<rparr>"
    from lt Suc.prems have "length (Toks ?P1) < n" by simp
    from Suc.IH[OF Suc.prems(1) this] obtain P' where
      "recoverLoop n C ?P1 = Some P'" "length (Toks P') \<le> length (Toks ?P1)" by blast
    with True lt show ?thesis by simp
  next
    case False
    then show ?thesis by auto
  qed
qed

lemma recoverFromBadSelectorArgument_total:
  "collabProgress C \<Longrightarrow> length (Toks P) < n \<Longrightarrow>
   \<exists>P'. recoverFromBadSelectorArgument n C P = Some P' \<and> length (Toks P') \<le> length (Toks P)"
proof -
  assume a: "collabProgress C" "length (Toks P) < n"
  from recoverLoop_total[OF a] obtain P' where
    r: "recoverLoop n C P = Some P'" and l: "length (Toks P') \<le> length (Toks P)" by blast
  have "length (Toks (snd (consumeIf tok_r_paren P'))) \<le> length (Toks P')"
    by (simp add: consumeIf_def consumeToken_def)
  with r l show ?thesis by (simp add: recoverFromBadSelectorArgument_def)
qed

lemma parseDefaultArgument_unfold:
  assumes "Tok P = tok_equal"
  shows "parseDefaultArgument n C d k i P =
           (if resHasCodeCompletion (fst (fst (parseExpr C (tl (Toks P)))))
            then map_option (\<lambda>P'. ((makeParserCodeCompletionStatus, i), P'))
                   (recoverFromBadSelectorArgument n C (afterInit C d k P))
            else if isNull (fst (fst (parseExpr C (tl (Toks P)))))
            then map_option (\<lambda>P'. ((makeParserError, i), P'))
                   (recoverFromBadSelectorArgument n C (afterInit C d k P))
            else Some ((makeParserSuccess,
                        Some (ExprHandle (getPtrOrNull (fst (fst (parseExpr C (tl (Toks P)))))))),
                       afterInit C d k P))"
  using assms
  by (simp add: parseDefaultArgument_def afterInit_def Let_def consumeToken_def diagnose_def)

lemma Toks_afterInit: "Toks (afterInit C d k P) = snd (parseExpr C (tl (Toks P)))"
  by (simp add: afterInit_def Let_def diagnose_def)

lemma parseDefaultArgument_total:
  assumes "collabProgress C" "length (Toks P) \<le> n" "Tok P = tok_equal"
  shows "\<exists>r P'. parseDefaultArgument n C d k i P = Some (r, P') \<and> length (Toks P') < length (Toks P)"
proof -
  have ne: "Toks P \<noteq> []" using assms(3) by (auto simp: Tok_def)
  let ?ts = "snd (parseExpr C (tl (Toks P)))"
  have le: "length ?ts \<le> length (tl (Toks P))" using assms(1) unfolding collabProgress_def by blast
  have lt: "length ?ts < length (Toks P)" using le ne by (cases "Toks P") auto
  have "length (Toks (afterInit C d k P)) < n" using lt assms(2) by (simp add: Toks_afterInit)
  from recoverFromBadSelectorArgument_total[OF assms(1) this] obtain P' where
    r: "recoverFromBadSelectorArgument n C (afterInit C d k P) = Some P'"
       "length (Toks P') \<le> length (Toks (afterInit C d k P))"
    by blast
  show ?thesis using r lt by (auto simp: parseDefaultArgument_unfold[OF assms(3)] Toks_afterInit)
qed

lemma recoverLoop_len:
  "collabProgress C \<Longrightarrow> recoverLoop n C P = Some P' \<Longrightarrow> length (Toks P') \<le> length (Toks P)"
proof (induction n arbitrary: P)
  case 0
  then show ?case by simp
next
  case (Suc n)
  show ?case
  proof (cases "Tok P \<noteq> tok_eof \<and> Tok P \<noteq> tok_r_paren \<and>
         Tok P \<noteq> tok_l_brace \<and> Tok P \<noteq> tok_r_brace \<and>
         \<not> isStartOfStmt C (Tok P) \<and>
         \<not> isStartOfDecl C (Tok P) (peekToken P)")
    case True
    then have ne: "Toks P \<noteq> []" by (simp add: Tok_nonempty)
    with Suc.prems have lt: "length (skipSingle C (Toks P)) < length (Toks P)"
      by (simp add: collabProgress_def)
    from True Suc.prems have "recoverLoop n C (P\<lparr>Toks := skipSingle C (Toks P)\<rparr>) = Some P'"
      by simp
    from Suc.IH[OF Suc.prems(1) this] lt show ?thesis by simp
  next
    case False
    with Suc.prems show ?thesis by auto
  qed
qed

lemma recoverFromBadSelectorArgument_len:
  assumes "collabProgress C" "recoverFromBadSelectorArgument n C P = Some P'"
  shows "length (Toks P') \<le> length (Toks P)"
proof -
  from assms(2) obtain Q where q: "recoverLoop n C P = Some Q" "P' = snd (consumeIf tok_r_paren Q)"
    by (auto simp: recoverFromBadSelectorArgument_def)
  have "length (Toks P') \<le> length (Toks Q)" using q(2) by (simp add: consumeIf_def consumeToken_def)
  with recoverLoop_len[OF assms(1) q(1)] show ?thesis by simp
qed

lemma parseDefaultArgument_len:
  assumes "collabProgress C" "parseDefaultArgument n C d k i P = Some (r, P')"
  shows "length (Toks P') < length (Toks P)"
proof -
  have eq: "Tok P = tok_equal" using assms(2) by (auto simp: parseDefaultArgument_def split: if_splits)
  have ne: "Toks P \<noteq> []" using eq by (auto simp: Tok_def)
  let ?ts = "snd (parseExpr C (tl (Toks P)))"
  have le: "length ?ts \<le> length (tl (Toks P))" using assms(1) unfolding collabProgress_def by blast
  have lt: "length ?ts < length (Toks P)" using le ne by (cases "Toks P") auto
  show ?thesis
    using assms(2) lt recoverFromBadSelectorArgument_len[OF assms(1), of n "afterInit C d k P"]
    by (auto simp: parseDefaultArgument_unfold[OF eq] Toks_afterInit split: if_splits)
qed

lemma parsePatternIdentifier_len:
  "length (Toks (snd (parsePatternIdentifier l P))) \<le> length (Toks P)"
  by (auto simp: parsePatternIdentifier_def consumeToken_def split: tok.splits)

lemma parseTypeAnnotation_len:
  "collabProgress C \<Longrightarrow> length (snd (parseTypeAnnotation C ts)) \<le> length ts"
  by (simp add: collabProgress_def)

lemma lenOK1_None [simp]: "lenOK1 P None"
  by (simp add: lenOK1_def)
lemma lenOK2_None [simp]: "lenOK2 P None"
  by (simp add: lenOK2_def)
lemma lenOK1_Some [simp]: "lenOK1 P (Some (x, P')) = (length (Toks P') \<le> length (Toks P))"
  by (simp add: lenOK1_def)
lemma lenOK2_Some [simp]: "lenOK2 P (Some (x, y, P')) = (length (Toks P') \<le> length (Toks P))"
  by (simp add: lenOK2_def)

lemma lenOK1_mono: "lenOK1 Q r \<Longrightarrow> length (Toks Q) \<le> length (Toks P) \<Longrightarrow> lenOK1 P r"
  by (auto simp: lenOK1_def split: option.splits)
lemma lenOK2_mono: "lenOK2 Q r \<Longrightarrow> length (Toks Q) \<le> length (Toks P) \<Longrightarrow> lenOK2 P r"
  by (auto simp: lenOK2_def split: option.splits)

lemma parser_len:
  assumes C: "collabProgress C"
  shows "(\<forall>l P. lenOK1 P (parsePattern n C l P)) \<and>
         (\<forall>P. lenOK1 P (parsePatternVarOrLet n C P)) \<and>
         (\<forall>l P. lenOK1 P (parsePatternAtom n C l P)) \<and>
         (\<forall>d l P. lenOK1 P (parsePatternTupleElement n C d l P)) \<and>
         (\<forall>d l acc P. lenOK2 P (parsePatternTupleCallback n C d l acc P)) \<and>
         (\<forall>d l P. lenOK2 P (parseList n C d l P)) \<and>
         (\<forall>d l S acc P. lenOK2 P (parseListLoop n C d l S acc P)) \<and>
         (\<forall>d l P. lenOK1 P (parsePatternTuple n C d l P))"
proof (induction n)
  case 0
  show ?case by simp
next
  case (Suc n)
  then have IH1: "\<And>l P. lenOK1 P (parsePattern n C l P)"
    and IH2: "\<And>P. lenOK1 P (parsePatternVarOrLet n C P)"
    and IH3: "\<And>l P. lenOK1 P (parsePatternAtom n C l P)"
    and IH4: "\<And>d l P. lenOK1 P (parsePatternTupleElement n C d l P)"
    and IH5: "\<And>d l acc P. lenOK2 P (parsePatternTupleCallback n C d l acc P)"
    and IH6: "\<And>d l P. lenOK2 P (parseList n C d l P)"
    and IH7: "\<And>d l S acc P. lenOK2 P (parseListLoop n C d l S acc P)"
    and IH8: "\<And>d l P. lenOK1 P (parsePatternTuple n C d l P)"
    by (simp_all del: split_paired_All)
  have c1: "lenOK1 P (parsePattern (Suc n) C l P)" for l P
  proof (cases "Tok P = tok_kw_let \<or> Tok P = tok_kw_var")
    case True
    then show ?thesis using IH2[of P] by auto
  next
    case False
    show ?thesis
    proof (cases "parsePatternAtom n C l P")
      case None
      then show ?thesis using False by simp
    next
      case (Some r)
      obtain Result P1 where r: "r = (Result, P1)" by (cases r) auto
      have l1: "length (Toks P1) \<le> length (Toks P)" using IH3[of P l] Some r by simp
      have "length (snd (parseTypeAnnotation C (tl (Toks P1)))) \<le> length (tl (Toks P1))"
        by (rule parseTypeAnnotation_len[OF C])
      then have l2: "length (snd (parseTypeAnnotation C (tl (Toks P1)))) \<le> length (Toks P)"
        using l1 by simp
      show ?thesis using False Some r l1 l2
        by (auto simp: Let_def consumeToken_def split: option.splits)
    qed
  qed
  have c2: "lenOK1 P (parsePatternVarOrLet (Suc n) C P)" for P
    using IH1[of "(if InVarOrLetPattern (consumeToken P) \<noteq> IVOLP_NotInVarOrLet
                  then diagnose (Diagnostic var_pattern_in_var False) (consumeToken P) else (consumeToken P))
                  \<lparr>InVarOrLetPattern := (if Tok P = tok_kw_let then IVOLP_InLet else IVOLP_InVar)\<rparr>"
              "Tok P = tok_kw_let"]
    by (auto simp: Let_def consumeToken_def lenOK1_def diagnose_def split: option.splits prod.splits if_splits)
  have c3: "lenOK1 P (parsePatternAtom (Suc n) C l P)" for l P
    using IH8[of P False l] parsePatternIdentifier_len[of l P]
    by (auto simp: Let_def consumeToken_def lenOK1_def split: option.splits prod.splits if_splits)
  have c4: "lenOK1 P (parsePatternTupleElement (Suc n) C d l P)" for d l P
    using IH1[of "(if d then P\<lparr>NextIndex := NextIndex P + 1\<rparr> else P)" l]
    by (auto simp: Let_def lenOK1_def split: option.splits prod.splits if_splits
             dest!: parseDefaultArgument_len[OF C])
  have c5: "lenOK2 P (parsePatternTupleCallback (Suc n) C d l acc P)" for d l acc P
    using IH4[of P d l]
    by (auto simp: Let_def lenOK1_def lenOK2_def consumeToken_def getLoc_def
             split: option.splits prod.splits if_splits Pattern.splits)
  have c6: "lenOK2 P (parseList (Suc n) C d l P)" for d l P
    using IH7[of P d l makeParserSuccess "([], None)"]
    by (auto simp: lenOK2_def consumeToken_def split: option.splits prod.splits if_splits)
  have c7: "lenOK2 P (parseListLoop (Suc n) C d l S acc P)" for d l S acc P
  proof (cases "parsePatternTupleCallback n C d l acc P")
    case None
    then show ?thesis by simp
  next
    case (Some r)
    obtain s acc1 P1 where r: "r = (s, acc1, P1)" by (cases r) auto
    have l1: "length (Toks P1) \<le> length (Toks P)" using IH5[of P d l acc] Some r by simp
    have "lenOK2 (consumeToken P1) (parseListLoop n C d l (status_or S s) acc1 (consumeToken P1))"
      by (rule IH7)
    then have "lenOK2 P (parseListLoop n C d l (status_or S s) acc1 (consumeToken P1))"
      using l1 by (auto intro: lenOK2_mono simp: consumeToken_def)
    then show ?thesis using Some r l1 by (auto simp: consumeToken_def)
  qed
  have c8: "lenOK1 P (parsePatternTuple (Suc n) C d l P)" for d l P
    using IH6[of "consumeToken P" d l]
    by (auto simp: lenOK1_def lenOK2_def consumeToken_def split: option.splits prod.splits if_splits)
  show ?case by (intro conjI allI c1 c2 c3 c4 c5 c6 c7 c8)
qed
lemmas parsePattern_len = parser_len[THEN conjunct1, rule_format]
lemmas parsePatternVarOrLet_len = parser_len[THEN conjunct2, THEN conjunct1, rule_format]
lemmas parsePatternAtom_len = parser_len[THEN conjunct2, THEN conjunct2, THEN conjunct1, rule_format]
lemmas parsePatternTupleElement_len = parser_len[THEN conjunct2, THEN conjunct2, THEN conjunct2, THEN conjunct1, rule_format]
lemmas parsePatternTupleCallback_len = parser_len[THEN conjunct2, THEN conjunct2, THEN conjunct2, THEN conjunct2, THEN conjunct1, rule_format]
lemmas parsePatternTuple_len = parser_len[THEN conjunct2, THEN conjunct2, THEN conjunct2, THEN conjunct2, THEN conjunct2, THEN conjunct2, THEN conjunct2, rule_format]

lemma len_pos_if_tok: "Tok P = t \<Longrightarrow> t \<noteq> tok_eof \<Longrightarrow> 0 < length (Toks P)"
  by (cases "Toks P") (auto simp: Tok_def)

lemma parser_defined:
  assumes C: "collabProgress C"
  shows "(\<forall>l P. 7 * length (Toks P) + 3 \<le> n \<longrightarrow> parsePattern n C l P \<noteq> None) \<and>
         (\<forall>P. 7 * length (Toks P) + 2 \<le> n \<longrightarrow> (Tok P = tok_kw_let \<or> Tok P = tok_kw_var) \<longrightarrow>
              parsePatternVarOrLet n C P \<noteq> None) \<and>
         (\<forall>l P. 7 * length (Toks P) + 2 \<le> n \<longrightarrow> parsePatternAtom n C l P \<noteq> None) \<and>
         (\<forall>d l P. 7 * length (Toks P) + 4 \<le> n \<longrightarrow> parsePatternTupleElement n C d l P \<noteq> None) \<and>
         (\<forall>d l acc P. 7 * length (Toks P) + 5 \<le> n \<longrightarrow>
              parsePatternTupleCallback n C d l acc P \<noteq> None) \<and>
         (\<forall>d l P. 7 * length (Toks P) + 7 \<le> n \<longrightarrow> parseList n C d l P \<noteq> None) \<and>
         (\<forall>d l S acc P. 7 * length (Toks P) + 6 \<le> n \<longrightarrow> parseListLoop n C d l S acc P \<noteq> None) \<and>
         (\<forall>d l P. 7 * length (Toks P) + 1 \<le> n \<longrightarrow> Tok P = tok_l_paren \<longrightarrow>
              parsePatternTuple n C d l P \<noteq> None)"
proof (induction n)
  case 0
  show ?case by simp
next
  case (Suc n)
  note IH1 = Suc.IH[THEN conjunct1, rule_format]
  note IH2 = Suc.IH[THEN conjunct2, THEN conjunct1, rule_format]
  note IH3 = Suc.IH[THEN conjunct2, THEN conjunct2, THEN conjunct1, rule_format]
  note IH4 = Suc.IH[THEN conjunct2, THEN conjunct2, THEN conjunct2, THEN conjunct1, rule_format]
  note IH5 = Suc.IH[THEN conjunct2, THEN conjunct2, THEN conjunct2, THEN conjunct2, THEN conjunct1, rule_format]
  note IH6 = Suc.IH[THEN conjunct2, THEN conjunct2, THEN conjunct2, THEN conjunct2, THEN conjunct2, THEN conjunct1, rule_format]
  note IH7 = Suc.IH[THEN conjunct2, THEN conjunct2, THEN conjunct2, THEN conjunct2, THEN conjunct2, THEN conjunct2, THEN conjunct1, rule_format]
  note IH8 = Suc.IH[THEN conjunct2, THEN conjunct2, THEN conjunct2, THEN conjunct2, THEN conjunct2, THEN conjunct2, THEN conjunct2, rule_format]
  have c1: "parsePattern (Suc n) C l P \<noteq> None" if b: "7 * length (Toks P) + 3 \<le> Suc n" for l P
  proof (cases "Tok P = tok_kw_let \<or> Tok P = tok_kw_var")
    case True
    then show ?thesis using IH2[of P] b by auto
  next
    case False
    from IH3[of P l] b obtain Result P1 where r: "parsePatternAtom n C l P = Some (Result, P1)"
      by fastforce
    show ?thesis using False r
      by (auto simp: Let_def isNull_def makeParserErrorResult_def makeParserResult_def
               split: option.splits)
  qed
  have c2: "parsePatternVarOrLet (Suc n) C P \<noteq> None"
    if b: "7 * length (Toks P) + 2 \<le> Suc n" and t: "Tok P = tok_kw_let \<or> Tok P = tok_kw_var" for P
  proof -
    have pos: "0 < length (Toks P)" using t by (auto dest: len_pos_if_tok)
    let ?P3 = "(if InVarOrLetPattern (consumeToken P) \<noteq> IVOLP_NotInVarOrLet
                  then diagnose (Diagnostic var_pattern_in_var False) (consumeToken P) else (consumeToken P))
                  \<lparr>InVarOrLetPattern := (if Tok P = tok_kw_let then IVOLP_InLet else IVOLP_InVar)\<rparr>"
    have "length (Toks ?P3) = length (Toks P) - 1" by (simp add: consumeToken_def)
    then have "7 * length (Toks ?P3) + 3 \<le> n" using b pos by (cases "length (Toks P)") auto
    from IH1[OF this, of "Tok P = tok_kw_let"] obtain sub P4 where
      r: "parsePattern n C (Tok P = tok_kw_let) ?P3 = Some (sub, P4)" by fastforce
    show ?thesis using t r by (simp add: Let_def split: option.splits)
  qed
  have c3: "parsePatternAtom (Suc n) C l P \<noteq> None" if b: "7 * length (Toks P) + 2 \<le> Suc n" for l P
    using IH8[of P False l] b by auto
  have c4: "parsePatternTupleElement (Suc n) C d l P \<noteq> None"
    if b: "7 * length (Toks P) + 4 \<le> Suc n" for d l P
  proof -
    let ?P0 = "(if d then P\<lparr>NextIndex := NextIndex P + 1\<rparr> else P)"
    have "7 * length (Toks ?P0) + 3 \<le> n" using b by simp
    from IH1[OF this, of l] obtain pattern P1 where
      r: "parsePattern n C l ?P0 = Some (pattern, P1)" by fastforce
    have "length (Toks ?P0) = length (Toks P)" by simp
    then have l1: "length (Toks P1) \<le> length (Toks P)"
      using parsePattern_len[OF C, of ?P0 n l] r by (simp only: lenOK1_Some)
    then have "length (Toks P1) \<le> n" using b by simp
    show ?thesis
    proof (cases "Tok P1 = tok_equal")
      case True
      from parseDefaultArgument_total[OF C \<open>length (Toks P1) \<le> n\<close> True]
      obtain s i P2 where
        "parseDefaultArgument n C d (if d then NextIndex P else 0) None P1 = Some ((s, i), P2)"
        by fastforce
      then show ?thesis using r True by (cases d) (simp_all add: Let_def split: option.splits)
    next
      case False
      then show ?thesis using r by (simp add: Let_def split: option.splits)
    qed
  qed
  have c5: "parsePatternTupleCallback (Suc n) C d l acc P \<noteq> None"
    if b: "7 * length (Toks P) + 5 \<le> Suc n" for d l acc P
    using IH4[of P d l] b
    by (auto simp: Let_def split: option.splits Pattern.splits)
  have c6: "parseList (Suc n) C d l P \<noteq> None" if b: "7 * length (Toks P) + 7 \<le> Suc n" for d l P
    using IH7[of P d l makeParserSuccess "([], None)"] b by auto
  have c7: "parseListLoop (Suc n) C d l S acc P \<noteq> None"
    if b: "7 * length (Toks P) + 6 \<le> Suc n" for d l S acc P
  proof -
    from IH5[of P d l acc] b obtain s acc1 P1 where
      r: "parsePatternTupleCallback n C d l acc P = Some (s, acc1, P1)" by fastforce
    have l1: "length (Toks P1) \<le> length (Toks P)"
      using parsePatternTupleCallback_len[OF C, of P n d l acc] r by simp
    have "parseListLoop n C d l (status_or S s) acc1 (consumeToken P1) \<noteq> None"
      if t: "Tok P1 = tok_comma"
    proof -
      have "0 < length (Toks P1)" using t by (auto dest: len_pos_if_tok)
      then have "7 * length (Toks (consumeToken P1)) + 6 \<le> n" using l1 b
        by (cases "length (Toks P1)") (auto simp: consumeToken_def)
      then show ?thesis by (rule IH7)
    qed
    then show ?thesis using r by auto
  qed
  have c8: "parsePatternTuple (Suc n) C d l P \<noteq> None"
    if b: "7 * length (Toks P) + 1 \<le> Suc n" and t: "Tok P = tok_l_paren" for d l P
  proof -
    have "0 < length (Toks P)" using t by (auto dest: len_pos_if_tok)
    then have "7 * length (Toks (consumeToken P)) + 7 \<le> n" using b
      by (cases "length (Toks P)") (auto simp: consumeToken_def)
    from IH6[OF this, of d l] show ?thesis using t by (auto split: option.splits)
  qed
  show ?case by (intro conjI allI impI c1 c2 c3 c4 c5 c6 c7 c8)
qed

section \<open>What the default-argument parse leaves untouched\<close>

lemma exampleCollab_progress: "collabProgress exampleCollab"
  by (auto simp: collabProgress_def exampleCollab_def exampleParseExpr_def
        exampleParseTypeAnnotation_def split: list.splits tok.splits)

lemma recoverLoop_fields:
  "recoverLoop n C P = Some P' \<Longrightarrow> P' = P\<lparr>Toks := Toks P'\<rparr>"
proof (induction n arbitrary: P)
  case 0
  then show ?case by simp
next
  case (Suc n)
  show ?case
  proof (cases "Tok P \<noteq> tok_eof \<and> Tok P \<noteq> tok_r_paren \<and>
         Tok P \<noteq> tok_l_brace \<and> Tok P \<noteq> tok_r_brace \<and>
         \<not> isStartOfStmt C (Tok P) \<and>
         \<not> isStartOfDecl C (Tok P) (peekToken P)")
    case True
    with Suc.prems have "recoverLoop n C (P\<lparr>Toks := skipSingle C (Toks P)\<rparr>) = Some P'" by simp
    from Suc.IH[OF this] show ?thesis by simp
  next
    case False
    with Suc.prems show ?thesis by auto
  qed
qed

lemma recoverFromBadSelectorArgument_fields:
  assumes "recoverFromBadSelectorArgument n C P = Some P'"
  shows "P' = P\<lparr>Toks := Toks P'\<rparr>"
proof -
  from assms obtain Q where q: "recoverLoop n C P = Some Q" "P' = snd (consumeIf tok_r_paren Q)"
    by (auto simp: recoverFromBadSelectorArgument_def)
  from recoverLoop_fields[OF q(1)] have "Q = P\<lparr>Toks := Toks Q\<rparr>" .
  then have "snd (consumeIf tok_r_paren Q) = P\<lparr>Toks := Toks (snd (consumeIf tok_r_paren Q))\<rparr>"
    by (metis (no_types, lifting) Parser.surjective Parser.update_convs(1) consumeIf_def consumeToken_def snd_conv)
  with q(2) show ?thesis by simp
qed

lemma parseDefaultArgument_fields:
  assumes "parseDefaultArgument n C d k i P = Some (r, P')"
  shows "P' = (afterInit C d k P)\<lparr>Toks := Toks P'\<rparr>"
proof -
  have eq: "Tok P = tok_equal" using assms by (auto simp: parseDefaultArgument_def split: if_splits)
  show ?thesis
    using assms recoverFromBadSelectorArgument_fields[of n C "afterInit C d k P"]
    by (auto simp: parseDefaultArgument_unfold[OF eq] split: if_splits)
qed

lemma Tok_initialParser [simp]: "Tok (initialParser (t # ts)) = t"
  by (simp add: Tok_def initialParser_def)

section \<open>When a tuple is variadic\<close>

lemma parsePatternTupleCallback_ellipsis:
  assumes "parsePatternTupleCallback n C d l acc P = Some (s, acc1, P1)"
    and "snd acc1 \<noteq> snd acc"
  shows "fst acc1 \<noteq> [] \<and> getInit (last (fst acc1)) = None \<and>
         (\<exists>q t i. getPattern (last (fst acc1)) = TypedPattern q t i) \<and>
         Tok P1 = tok_r_paren \<and> snd acc1 \<noteq> None \<and> s = makeParserSuccess \<and>
         butlast (fst acc1) = fst acc"
proof (cases n)
  case 0
  with assms show ?thesis by simp
next
  case (Suc m)
  with assms show ?thesis
    by (auto simp: Let_def getLoc_def split: option.splits if_splits Pattern.splits prod.splits)
qed

lemma parseListLoop_ellipsis:
  "parseListLoop n C d l S acc P = Some (S', acc', P') \<Longrightarrow> snd acc = None \<Longrightarrow>
   snd acc' \<noteq> None \<Longrightarrow>
   fst acc' \<noteq> [] \<and> getInit (last (fst acc')) = None \<and>
   (\<exists>q t i. getPattern (last (fst acc')) = TypedPattern q t i)"
proof (induction n arbitrary: S acc P)
  case 0
  then show ?case by simp
next
  case (Suc n)
  from Suc.prems(1) obtain s acc1 P1 where
    cb: "parsePatternTupleCallback n C d l acc P = Some (s, acc1, P1)"
    by (auto split: option.splits)
  show ?case
  proof (cases "snd acc1 = snd acc")
    case True
    then have n1: "snd acc1 = None" using Suc.prems(2) by simp
    show ?thesis
    proof (cases "Tok P1 = tok_r_paren")
      case True
      with Suc.prems cb n1 show ?thesis by auto
    next
      case False
      show ?thesis
      proof (cases "Tok P1 = tok_comma")
        case True
        with Suc.prems(1) cb False have
          "parseListLoop n C d l (status_or S s) acc1 (consumeToken P1) = Some (S', acc', P')"
          by simp
        from Suc.IH[OF this n1 Suc.prems(3)] show ?thesis .
      next
        case f2: False
        with Suc.prems cb False n1 show ?thesis by auto
      qed
    qed
  next
    case False
    from parsePatternTupleCallback_ellipsis[OF cb False] Suc.prems(1) cb
    show ?thesis by auto
  qed
qed

lemma parsePatternTuple_variadic:
  assumes "parsePatternTuple n C d l P = Some (res, P')"
    and "getPtrOrNull res = Some (TuplePattern es True i)"
  shows "es \<noteq> [] \<and> getInit (last es) = None \<and> (\<exists>q t j. getPattern (last es) = TypedPattern q t j)"
proof (cases n)
  case 0
  with assms show ?thesis by simp
next
  case (Suc m)
  with assms(1) obtain S acc P1 where
    pl: "parseList m C d l (consumeToken P) = Some (S, acc, P1)"
    and r: "res = makeParserResultStatus S (createSimple (fst acc) (snd acc \<noteq> None))"
    by (auto split: option.splits if_splits)
  from r assms(2) have cs: "createSimple (fst acc) (snd acc \<noteq> None) = TuplePattern es True i"
    by (simp add: makeParserResultStatus_def)
  then have e: "fst acc = es" and v: "snd acc \<noteq> None"
    by (auto simp: createSimple_def split: list.splits if_splits)
  show ?thesis
  proof (cases m)
    case 0
    with pl show ?thesis by simp
  next
    case (Suc k)
    with pl v have "parseListLoop k C d l makeParserSuccess ([], None) (consumeToken P) = Some (S, acc, P1)"
      by (auto split: if_splits)
    from parseListLoop_ellipsis[OF this _ v] e show ?thesis by simp
  qed
qed

section \<open>More fuel never changes a result\<close>

lemma le_opt_None [simp]: "le_opt None b" by (simp add: le_opt_def)

lemma le_opt_refl [simp]: "le_opt a a" by (simp add: le_opt_def)

lemma le_opt_Some: "le_opt a b \<Longrightarrow> a = Some x \<Longrightarrow> b = Some x" by (auto simp: le_opt_def)

lemma le_opt_map: "le_opt a b \<Longrightarrow> le_opt (map_option f a) (map_option f b)" by (auto simp: le_opt_def)

lemma le_opt_bind:
  "le_opt a b \<Longrightarrow> (\<And>x. a = Some x \<Longrightarrow> le_opt (f x) (g x)) \<Longrightarrow>
   le_opt (case a of None \<Rightarrow> None | Some x \<Rightarrow> f x) (case b of None \<Rightarrow> None | Some x \<Rightarrow> g x)"
  by (auto simp: le_opt_def split: option.splits)

lemma le_opt_if:
  "(c \<Longrightarrow> le_opt a a') \<Longrightarrow> (\<not> c \<Longrightarrow> le_opt b b') \<Longrightarrow>
   le_opt (if c then a else b) (if c then a' else b')"
  by simp

lemma le_opt_case_prod:
  "(\<And>a b. le_opt (f a b) (g a b)) \<Longrightarrow>
   le_opt (case x of (a, b) \<Rightarrow> f a b) (case x of (a, b) \<Rightarrow> g a b)"
  by (cases x) simp

lemma le_opt_case_option:
  "le_opt a a' \<Longrightarrow> (\<And>y. le_opt (f y) (g y)) \<Longrightarrow>
   le_opt (case x of None \<Rightarrow> a | Some y \<Rightarrow> f y) (case x of None \<Rightarrow> a' | Some y \<Rightarrow> g y)"
  by (cases x) simp_all

lemma recoverLoop_mono: "le_opt (recoverLoop n C P) (recoverLoop (Suc n) C P)"
proof (induction n arbitrary: P)
  case 0
  show ?case by simp
next
  case (Suc n)
  show ?case using Suc[of "P\<lparr>Toks := skipSingle C (Toks P)\<rparr>"]
    by (simp del: recoverLoop.simps add: recoverLoop.simps(2)[where n="Suc n"] recoverLoop.simps(2)[where n=n])
qed

lemma recoverFromBadSelectorArgument_mono:
  "le_opt (recoverFromBadSelectorArgument n C P) (recoverFromBadSelectorArgument (Suc n) C P)"
  unfolding recoverFromBadSelectorArgument_def by (rule le_opt_map) (rule recoverLoop_mono)

lemma parseDefaultArgument_mono:
  "le_opt (parseDefaultArgument n C d k i P) (parseDefaultArgument (Suc n) C d k i P)"
proof (cases "Tok P = tok_equal")
  case True
  show ?thesis
    using recoverFromBadSelectorArgument_mono[of n C "afterInit C d k P"]
    by (auto simp: parseDefaultArgument_unfold[OF True] le_opt_def)
next
  case False
  then show ?thesis by (simp add: parseDefaultArgument_def)
qed

lemmas parser_simps =
  parsePattern.simps parsePatternVarOrLet.simps parsePatternAtom.simps
  parsePatternTupleElement.simps parsePatternTupleCallback.simps parseList.simps
  parseListLoop.simps parsePatternTuple.simps

lemma parser_mono:
  "(\<forall>l P. le_opt (parsePattern n C l P) (parsePattern (Suc n) C l P)) \<and>
   (\<forall>P. le_opt (parsePatternVarOrLet n C P) (parsePatternVarOrLet (Suc n) C P)) \<and>
   (\<forall>l P. le_opt (parsePatternAtom n C l P) (parsePatternAtom (Suc n) C l P)) \<and>
   (\<forall>d l P. le_opt (parsePatternTupleElement n C d l P) (parsePatternTupleElement (Suc n) C d l P)) \<and>
   (\<forall>d l acc P. le_opt (parsePatternTupleCallback n C d l acc P)
                        (parsePatternTupleCallback (Suc n) C d l acc P)) \<and>
   (\<forall>d l P. le_opt (parseList n C d l P) (parseList (Suc n) C d l P)) \<and>
   (\<forall>d l S acc P. le_opt (parseListLoop n C d l S acc P) (parseListLoop (Suc n) C d l S acc P)) \<and>
   (\<forall>d l P. le_opt (parsePatternTuple n C d l P) (parsePatternTuple (Suc n) C d l P))"
proof (induction n)
  case 0
  show ?case by simp
next
  case (Suc n)
  note IH1 = Suc.IH[THEN conjunct1, rule_format]
  note IH2 = Suc.IH[THEN conjunct2, THEN conjunct1, rule_format]
  note IH3 = Suc.IH[THEN conjunct2, THEN conjunct2, THEN conjunct1, rule_format]
  note IH4 = Suc.IH[THEN conjunct2, THEN conjunct2, THEN conjunct2, THEN conjunct1, rule_format]
  note IH5 = Suc.IH[THEN conjunct2, THEN conjunct2, THEN conjunct2, THEN conjunct2, THEN conjunct1, rule_format]
  note IH6 = Suc.IH[THEN conjunct2, THEN conjunct2, THEN conjunct2, THEN conjunct2, THEN conjunct2, THEN conjunct1, rule_format]
  note IH7 = Suc.IH[THEN conjunct2, THEN conjunct2, THEN conjunct2, THEN conjunct2, THEN conjunct2, THEN conjunct2, THEN conjunct1, rule_format]
  note IH8 = Suc.IH[THEN conjunct2, THEN conjunct2, THEN conjunct2, THEN conjunct2, THEN conjunct2, THEN conjunct2, THEN conjunct2, rule_format]
  have c1: "le_opt (parsePattern (Suc n) C l P) (parsePattern (Suc (Suc n)) C l P)" for l P
    apply (subst parsePattern.simps(2)[where n="Suc n"])
    apply (subst parsePattern.simps(2)[where n=n])
    apply (intro le_opt_if le_opt_bind le_opt_case_prod le_opt_refl IH2 IH3)
    done
  have c2: "le_opt (parsePatternVarOrLet (Suc n) C P) (parsePatternVarOrLet (Suc (Suc n)) C P)" for P
    apply (subst parsePatternVarOrLet.simps(2)[where n="Suc n"])
    apply (subst parsePatternVarOrLet.simps(2)[where n=n])
    apply (simp only: Let_def)
    apply (intro le_opt_if le_opt_bind le_opt_case_prod le_opt_refl IH1)
    done
  have c3: "le_opt (parsePatternAtom (Suc n) C l P) (parsePatternAtom (Suc (Suc n)) C l P)" for l P
    apply (subst parsePatternAtom.simps(2)[where n="Suc n"])
    apply (subst parsePatternAtom.simps(2)[where n=n])
    apply (intro le_opt_if le_opt_refl IH8)
    done
  have c4: "le_opt (parsePatternTupleElement (Suc n) C d l P)
                   (parsePatternTupleElement (Suc (Suc n)) C d l P)" for d l P
    apply (subst parsePatternTupleElement.simps(2)[where n="Suc n"])
    apply (subst parsePatternTupleElement.simps(2)[where n=n])
    apply (simp only: Let_def)
    apply (intro le_opt_if le_opt_bind le_opt_case_prod le_opt_case_option le_opt_refl IH1
                 parseDefaultArgument_mono)
    done
  have c5: "le_opt (parsePatternTupleCallback (Suc n) C d l acc P)
                   (parsePatternTupleCallback (Suc (Suc n)) C d l acc P)" for d l acc P
    apply (subst parsePatternTupleCallback.simps(2)[where n="Suc n"])
    apply (subst parsePatternTupleCallback.simps(2)[where n=n])
    apply (intro le_opt_bind le_opt_refl IH4)
    done
  have c6: "le_opt (parseList (Suc n) C d l P) (parseList (Suc (Suc n)) C d l P)" for d l P
    apply (subst parseList.simps(2)[where n="Suc n"])
    apply (subst parseList.simps(2)[where n=n])
    apply (intro le_opt_if le_opt_refl IH7)
    done
  have c7: "le_opt (parseListLoop (Suc n) C d l S acc P) (parseListLoop (Suc (Suc n)) C d l S acc P)"
    for d l S acc P
    apply (subst parseListLoop.simps(2)[where n="Suc n"])
    apply (subst parseListLoop.simps(2)[where n=n])
    apply (intro le_opt_if le_opt_bind le_opt_case_prod le_opt_refl IH5 IH7)
    done
  have c8: "le_opt (parsePatternTuple (Suc n) C d l P) (parsePatternTuple (Suc (Suc n)) C d l P)"
    for d l P
    apply (subst parsePatternTuple.simps(2)[where n="Suc n"])
    apply (subst parsePatternTuple.simps(2)[where n=n])
    apply (intro le_opt_if le_opt_bind le_opt_case_prod le_opt_refl IH6)
    done
  show ?case by (intro conjI allI c1 c2 c3 c4 c5 c6 c7 c8)
qed

lemma le_opt_fuel:
  assumes step: "\<And>n. le_opt (f n) (f (Suc n))"
    and "f n = Some r" and "n \<le> m"
  shows "f m = Some r"
  using assms(3,2)
proof (induction m rule: dec_induct)
  case base
  then show ?case by simp
next
  case (step k)
  then show ?case using le_opt_Some[OF assms(1)] by blast
qed

lemma parsePatternTuple_fuel:
  "parsePatternTuple n C d l P = Some r \<Longrightarrow> n \<le> m \<Longrightarrow> parsePatternTuple m C d l P = Some r"
  using le_opt_fuel[of "\<lambda>n. parsePatternTuple n C d l P" n r m]
    parser_mono[THEN conjunct2, THEN conjunct2, THEN conjunct2, THEN conjunct2, THEN conjunct2,
                THEN conjunct2, THEN conjunct2, rule_format]
  by blast

lemma recoverFromBadSelectorArgument_fuel:
  "recoverFromBadSelectorArgument n C P = Some r \<Longrightarrow> n \<le> m \<Longrightarrow>
   recoverFromBadSelectorArgument m C P = Some r"
  using le_opt_fuel[of "\<lambda>n. recoverFromBadSelectorArgument n C P" n r m]
    recoverFromBadSelectorArgument_mono
  by blast

lemma createSimple_shape:
  "(\<exists>sub i. createSimple es v = ParenPattern sub i) \<or> (\<exists>es' v' i. createSimple es v = TuplePattern es' v' i)"
  by (auto simp: createSimple_def split: list.splits)

lemma parsePatternTuple_result:
  assumes "parsePatternTuple n C d l P = Some (res, P')"
  shows "Tok P = tok_l_paren \<and>
         (\<exists>p. getPtrOrNull res = Some p \<and>
           ((\<exists>sub i. p = ParenPattern sub i) \<or> (\<exists>es v i. p = TuplePattern es v i)))"
proof (cases n)
  case 0
  with assms show ?thesis by simp
next
  case (Suc m)
  with assms show ?thesis
    using createSimple_shape
    by (auto simp: makeParserResultStatus_def split: if_splits option.splits)
qed

lemma parsePatternTuple_len_strict:
  assumes "collabProgress C" "parsePatternTuple n C d l P = Some (res, P')"
  shows "length (Toks P') < length (Toks P)"
proof (cases n)
  case 0
  with assms show ?thesis by simp
next
  case (Suc m)
  from assms(2) Suc have t: "Tok P = tok_l_paren" by (auto split: if_splits)
  then have pos: "0 < length (Toks P)" by (auto dest: len_pos_if_tok)
  from assms(2) Suc t obtain S acc where
    pl: "parseList m C d l (consumeToken P) = Some (S, acc, P')"
    by (auto split: option.splits)
  have "lenOK2 (consumeToken P) (parseList m C d l (consumeToken P))"
    using parser_len[OF assms(1), of m] by blast
  with pl have "length (Toks P') \<le> length (Toks (consumeToken P))" by simp
  with pos show ?thesis by (cases "Toks P") (auto simp: consumeToken_def)
qed

section \<open>The selector loop on a valid clause sequence\<close>

lemma parseSelectorArgument_clause:
  assumes "isAtStartOfBindingName C P"
    and "parsePatternTuple n C True True (afterLabel names P) = Some (res, P3)"
    and "getPtrOrNull res = Some pat" and "innerElt pat = Some e"
  shows "parseSelectorArgument n C (A, B, names) P =
           Some (makeParserSuccess,
                 (A @ [argElt (labelNode (Tok P)) e], B @ [e], namesAfter names (Tok P)), P3)"
proof -
  from parsePatternTuple_result[OF assms(2)] have lp: "Tok (afterLabel names P) = tok_l_paren"
    by simp
  from assms(1) consider (u) "Tok P = tok_kw_underscore" | (i) s where "Tok P = tok_identifier s"
    by (auto simp: isAtStartOfBindingName_def elim: is_identifier.elims)
  then show ?thesis
  proof cases
    case u
    with assms(2,3,4) lp show ?thesis
      by (auto simp: parseSelectorArgument_def parsePatternIdentifier_def Let_def afterLabel_def
            labelNode_def namesAfter_def innerElt_def argElt_def makeParserResult_def
            rebuildImplicitPatternAround_def rebuild_eq
            split: Pattern.splits list.splits if_splits)
  next
    case i
    with assms(2,3,4) lp show ?thesis
      by (auto simp: parseSelectorArgument_def parsePatternIdentifier_def Let_def afterLabel_def
            labelNode_def namesAfter_def innerElt_def argElt_def makeParserResult_def
            createBindingFromPattern_def
            rebuildImplicitPatternAround_def rebuild_eq
            split: Pattern.splits list.splits if_splits)
  qed
qed

lemma leavesOf_leaf: "shapeOf R = SLeaf \<Longrightarrow> leavesOf R = [R]"
  by (cases R) simp_all

lemma leavesOf_rewriteSpec: "shapeOf R = SLeaf \<Longrightarrow> set (leavesOf (rewriteSpec R P)) \<subseteq> {R}"
proof (induction P)
  case (TuplePattern es v i)
  have "set (leavesOf (rewriteSpec R (getPattern e))) \<subseteq> {R}" if "e \<in> set es" for e
    by (cases e) (use that TuplePattern in auto)
  then show ?case by (auto simp: TuplePatternElt.map_sel)
qed (simp_all add: leavesOf_leaf)

lemma shapeOf_labelNode [simp]: "shapeOf (labelNode t) = SLeaf"
  by (cases t) (simp_all add: labelNode_def)

lemma status_or_success [simp]: "status_or S makeParserSuccess = S"
  by (cases S) (simp add: status_or_def makeParserSuccess_def)

lemma selectorLoop_valid:
  assumes "validClauses C names P cl P'"
  shows "\<exists>n0 names'. \<forall>n\<ge>n0.
           selectorLoop n C (A, B, names) S P =
             Some (S, (A @ map (\<lambda>c. argElt (labelNode (fst c)) (snd c)) cl, B @ map snd cl, names'), P')"
  using assms
proof (induction arbitrary: A B rule: validClauses.induct)
  case (noClause P names)
  have "\<forall>n\<ge>1. selectorLoop n C (A, B, names) S P = Some (S, (A, B, names), P)"
  proof (intro allI impI)
    fix n :: nat assume "1 \<le> n"
    then obtain m where "n = Suc m" by (cases n) auto
    with noClause show "selectorLoop n C (A, B, names) S P = Some (S, (A, B, names), P)" by simp
  qed
  then show ?case by auto
next
  case (clause P n names res P3 pat e cl P')
  let ?a = "argElt (labelNode (Tok P)) e"
  from clause.IH[of "A @ [?a]" "B @ [e]"] obtain n0 names' where
    ih: "\<forall>k\<ge>n0. selectorLoop k C (A @ [?a], B @ [e], namesAfter names (Tok P)) S P3 =
           Some (S, ((A @ [?a]) @ map (\<lambda>c. argElt (labelNode (fst c)) (snd c)) cl,
                     (B @ [e]) @ map snd cl, names'), P')"
    by blast
  have "\<forall>k\<ge>Suc (max n n0).
          selectorLoop k C (A, B, names) S P =
            Some (S, (A @ map (\<lambda>c. argElt (labelNode (fst c)) (snd c)) ((Tok P, e) # cl),
                      B @ map snd ((Tok P, e) # cl), names'), P')"
  proof (intro allI impI)
    fix k assume k: "Suc (max n n0) \<le> k"
    then obtain m where m: "k = Suc m" "n \<le> m" "n0 \<le> m" by (cases k) auto
    from parsePatternTuple_fuel[OF clause.hyps(2) m(2)]
    have "parsePatternTuple m C True True (afterLabel names P) = Some (res, P3)" .
    from parseSelectorArgument_clause[OF clause.hyps(1) this clause.hyps(3,4), of A B]
    have sa: "parseSelectorArgument m C (A, B, names) P =
           Some (makeParserSuccess, (A @ [?a], B @ [e], namesAfter names (Tok P)), P3)" .
    from ih m(3) have
      "selectorLoop m C (A @ [?a], B @ [e], namesAfter names (Tok P)) S P3 =
           Some (S, ((A @ [?a]) @ map (\<lambda>c. argElt (labelNode (fst c)) (snd c)) cl,
                     (B @ [e]) @ map snd cl, names'), P')"
      by blast
    with sa clause.hyps(1) m(1)
    show "selectorLoop k C (A, B, names) S P =
            Some (S, (A @ map (\<lambda>c. argElt (labelNode (fst c)) (snd c)) ((Tok P, e) # cl),
                      B @ map snd ((Tok P, e) # cl), names'), P')"
      by simp
  qed
  then show ?case by blast
qed

lemma firstSelectorElts_valid:
  assumes "firstBodyElt First = Some b0"
  shows "firstSelectorElts (Some First) P =
           Some (([TuplePatternElt (rewriteSpec (AnyPattern True) (getPattern b0)) (getInit b0)
                     (getDefaultArgKind b0)], [b0]), P)"
  using assms
  by (auto simp: firstBodyElt_def firstSelectorElts_def getFirstSelectorPattern_def argElt_def
        rebuildImplicitPatternAround_def rebuild_eq getDefaultArgKind_of_def Let_def
        split: Pattern.splits list.splits)

lemma concat_map_replicate:
  "concat (map (\<lambda>e. replicate (f e) R) es) = replicate (sum_list (map f es)) R"
  by (induction es) (simp_all add: replicate_add)

lemma leavesOf_rewriteSpec_eq:
  "shapeOf R = SLeaf \<Longrightarrow> leavesOf (rewriteSpec R P) = replicate (leafPositions P) R"
proof (induction P)
  case (TuplePattern es v i)
  have e: "leavesOf (rewriteSpec R (getPattern e)) = replicate (leafPositions (getPattern e)) R"
    if "e \<in> set es" for e
    by (cases e) (use that TuplePattern in auto)
  have "concat (map (\<lambda>e. leavesOf (rewriteSpec R (getPattern e))) es) =
        concat (map (\<lambda>e. replicate (leafPositions (getPattern e)) R) es)"
    using e by (simp cong: map_cong)
  then show ?case
    by (simp add: comp_def TuplePatternElt.map_sel concat_map_replicate)
qed (simp_all add: leavesOf_leaf)

section \<open>Bindings take the qualifier they are parsed under\<close>

lemma pred_TuplePatternElt_sel: "pred_TuplePatternElt Q e = Q (getPattern e)"
  by (cases e) simp

lemma bindsAs_createSimple: "eltsBindAs l es \<Longrightarrow> bindsAs l (createSimple es v)"
  by (auto simp: createSimple_def eltsBindAs_def pred_TuplePatternElt_sel split: list.splits)

lemma eltsBindAs_snoc: "eltsBindAs l es \<Longrightarrow> bindsAs l (getPattern e) \<Longrightarrow> eltsBindAs l (es @ [e])"
  by (simp add: eltsBindAs_def pred_TuplePatternElt_sel)

lemma parsePatternIdentifier_bindsAs:
  "getPtrOrNull (fst (parsePatternIdentifier l P)) = Some p \<Longrightarrow> bindsAs l p"
  by (auto simp: parsePatternIdentifier_def makeParserResult_def createBindingFromPattern_def
        nullResult_def split: if_splits tok.splits)

lemma parser_bindsAs:
  "(\<forall>l P. resBindsAs l (parsePattern n C l P)) \<and>
   (\<forall>P r P'. parsePatternVarOrLet n C P = Some (r, P') \<longrightarrow>
      r = nullResult \<or> (\<exists>q. r = makeParserResult (VarPattern q False) \<and> bindsAs (Tok P = tok_kw_let) q)) \<and>
   (\<forall>l P. resBindsAs l (parsePatternAtom n C l P)) \<and>
   (\<forall>d l P s e P'. parsePatternTupleElement n C d l P = Some ((s, Some e), P') \<longrightarrow>
      bindsAs l (getPattern e)) \<and>
   (\<forall>d l acc P s acc' P'. parsePatternTupleCallback n C d l acc P = Some (s, acc', P') \<longrightarrow>
      eltsBindAs l (fst acc) \<longrightarrow> eltsBindAs l (fst acc')) \<and>
   (\<forall>d l P s acc' P'. parseList n C d l P = Some (s, acc', P') \<longrightarrow> eltsBindAs l (fst acc')) \<and>
   (\<forall>d l S acc P s acc' P'. parseListLoop n C d l S acc P = Some (s, acc', P') \<longrightarrow>
      eltsBindAs l (fst acc) \<longrightarrow> eltsBindAs l (fst acc')) \<and>
   (\<forall>d l P. resBindsAs l (parsePatternTuple n C d l P))"
proof (induction n)
  case 0
  show ?case by (simp add: resBindsAs_def)
next
  case (Suc n)
  note IH1 = Suc.IH[THEN conjunct1, rule_format]
  note IH2 = Suc.IH[THEN conjunct2, THEN conjunct1, rule_format]
  note IH3 = Suc.IH[THEN conjunct2, THEN conjunct2, THEN conjunct1, rule_format]
  note IH4 = Suc.IH[THEN conjunct2, THEN conjunct2, THEN conjunct2, THEN conjunct1, rule_format]
  note IH5 = Suc.IH[THEN conjunct2, THEN conjunct2, THEN conjunct2, THEN conjunct2, THEN conjunct1, rule_format]
  note IH6 = Suc.IH[THEN conjunct2, THEN conjunct2, THEN conjunct2, THEN conjunct2, THEN conjunct2, THEN conjunct1, rule_format]
  note IH7 = Suc.IH[THEN conjunct2, THEN conjunct2, THEN conjunct2, THEN conjunct2, THEN conjunct2, THEN conjunct2, THEN conjunct1, rule_format]
  note IH8 = Suc.IH[THEN conjunct2, THEN conjunct2, THEN conjunct2, THEN conjunct2, THEN conjunct2, THEN conjunct2, THEN conjunct2, rule_format]
  have c1: "resBindsAs l (parsePattern (Suc n) C l P)" for l P
  proof (cases "Tok P = tok_kw_let \<or> Tok P = tok_kw_var")
    case True
    show ?thesis
    proof (cases "parsePatternVarOrLet n C P")
      case None
      with True show ?thesis by (auto simp: resBindsAs_def)
    next
      case (Some r)
      obtain res P' where r: "r = (res, P')" by (cases r) auto
      from IH2[of P res P'] Some r True show ?thesis
        by (auto simp: resBindsAs_def nullResult_def makeParserResult_def)
    qed
  next
    case False
    show ?thesis
    proof (cases "parsePatternAtom n C l P")
      case None
      with False show ?thesis by (simp add: resBindsAs_def)
    next
      case (Some r)
      obtain Result P1 where r: "r = (Result, P1)" by (cases r) auto
      from IH3[of l P] Some r have a: "\<And>p. getPtrOrNull Result = Some p \<Longrightarrow> bindsAs l p"
        by (simp add: resBindsAs_def)
      show ?thesis using False Some r a
        by (auto simp: resBindsAs_def Let_def isNull_def makeParserErrorResult_def
              makeParserResultStatus_def makeParserCodeCompletionResult_def
              split: option.splits)
    qed
  qed
  have c2: "r = nullResult \<or> (\<exists>q. r = makeParserResult (VarPattern q False) \<and> bindsAs (Tok P = tok_kw_let) q)"
    if a: "parsePatternVarOrLet (Suc n) C P = Some (r, P')" for P r P'
  proof -
    let ?P3 = "(if InVarOrLetPattern (consumeToken P) \<noteq> IVOLP_NotInVarOrLet
                  then diagnose (Diagnostic var_pattern_in_var False) (consumeToken P) else (consumeToken P))
                  \<lparr>InVarOrLetPattern := (if Tok P = tok_kw_let then IVOLP_InLet else IVOLP_InVar)\<rparr>"
    from a have t: "Tok P = tok_kw_let \<or> Tok P = tok_kw_var" by (auto split: if_splits)
    from a t have "parsePattern n C (Tok P = tok_kw_let) ?P3 \<noteq> None"
      by (auto simp: Let_def split: option.splits)
    then obtain sub P4 where s: "parsePattern n C (Tok P = tok_kw_let) ?P3 = Some (sub, P4)"
      by fastforce
    from IH1[of "Tok P = tok_kw_let" ?P3] s
    have b: "\<And>p. getPtrOrNull sub = Some p \<Longrightarrow> bindsAs (Tok P = tok_kw_let) p"
      by (simp add: resBindsAs_def)
    from a t s have "r = (case getPtrOrNull sub of None \<Rightarrow> nullResult
                          | Some p \<Rightarrow> makeParserResult (VarPattern p False))"
      by (simp add: Let_def split: option.splits)
    with b show ?thesis by (cases "getPtrOrNull sub") auto
  qed
  have c3: "resBindsAs l (parsePatternAtom (Suc n) C l P)" for l P
    using IH8[where d=False and l=l and P=P] parsePatternIdentifier_bindsAs[of l P]
    by (cases "parsePatternIdentifier l P")
       (auto simp: resBindsAs_def nullResult_def makeParserErrorResult_def split: option.splits)
  have c4: "bindsAs l (getPattern e)"
    if a: "parsePatternTupleElement (Suc n) C d l P = Some ((s, Some e), P')" for d l P s e P'
  proof -
    let ?P0 = "(if d then P\<lparr>NextIndex := NextIndex P + 1\<rparr> else P)"
    from a have "parsePattern n C l ?P0 \<noteq> None"
      by (auto simp: Let_def split: option.splits)
    then obtain pattern P1 where p: "parsePattern n C l ?P0 = Some (pattern, P1)"
      by fastforce
    from IH1[of l ?P0] p have b: "\<And>q. getPtrOrNull pattern = Some q \<Longrightarrow> bindsAs l q"
      by (simp add: resBindsAs_def)
    from a p obtain q where "getPtrOrNull pattern = Some q" "getPattern e = q"
      by (auto simp: Let_def split: option.splits if_splits)
    with b show ?thesis by simp
  qed
  have c5: "eltsBindAs l (fst acc')"
    if a: "parsePatternTupleCallback (Suc n) C d l acc P = Some (s, acc', P')"
      and b: "eltsBindAs l (fst acc)" for d l acc P s acc' P'
  proof -
    from a have "parsePatternTupleElement n C d l P \<noteq> None"
      by (auto split: option.splits)
    then obtain es elt P1 where e: "parsePatternTupleElement n C d l P = Some ((es, elt), P1)"
      by fastforce
    show ?thesis
    proof (cases elt)
      case None
      with a e b show ?thesis by (auto split: if_splits)
    next
      case (Some x)
      with IH4[of d l P es x P1] e have "bindsAs l (getPattern x)" by simp
      with b have "eltsBindAs l (fst acc @ [x])" by (simp add: eltsBindAs_snoc)
      with a e Some b show ?thesis
        by (auto simp: Let_def split: if_splits Pattern.splits)
    qed
  qed
  have c6: "eltsBindAs l (fst acc')"
    if a: "parseList (Suc n) C d l P = Some (s, acc', P')" for d l P s acc' P'
    using a IH7[of d l makeParserSuccess "([], None)" P s acc' P']
    by (auto simp: eltsBindAs_def split: if_splits)
  have c7: "eltsBindAs l (fst acc')"
    if a: "parseListLoop (Suc n) C d l S acc P = Some (s, acc', P')"
      and b: "eltsBindAs l (fst acc)" for d l S acc P s acc' P'
  proof -
    from a have "parsePatternTupleCallback n C d l acc P \<noteq> None"
      by (auto split: option.splits)
    then obtain s1 acc1 P1 where cb: "parsePatternTupleCallback n C d l acc P = Some (s1, acc1, P1)"
      by fastforce
    from IH5[OF cb b] have b1: "eltsBindAs l (fst acc1)" .
    show ?thesis
    proof (cases "Tok P1 = tok_comma \<and> Tok P1 \<noteq> tok_r_paren")
      case True
      with a cb have "parseListLoop n C d l (status_or S s1) acc1 (consumeToken P1) = Some (s, acc', P')"
        by simp
      from IH7[OF this b1] show ?thesis .
    next
      case False
      with a cb b1 show ?thesis by (auto split: if_splits)
    qed
  qed
  have c8: "resBindsAs l (parsePatternTuple (Suc n) C d l P)" for d l P
  proof (cases "parsePatternTuple (Suc n) C d l P")
    case None
    then show ?thesis by (simp add: resBindsAs_def)
  next
    case (Some r)
    then obtain S acc P1 where pl: "parseList n C d l (consumeToken P) = Some (S, acc, P1)"
      and r: "r = (makeParserResultStatus S (createSimple (fst acc) (snd acc \<noteq> None)), P1)"
      by (auto split: if_splits option.splits)
    from IH6[OF pl] have "eltsBindAs l (fst acc)" .
    from bindsAs_createSimple[OF this] Some r show ?thesis
      by (simp add: resBindsAs_def makeParserResultStatus_def)
  qed
  show ?case
    apply (intro conjI allI impI)
    subgoal by (rule c1)
    subgoal by (rule c2)
    subgoal by (rule c3)
    subgoal by (rule c4)
    subgoal by (erule c5)
    subgoal by (rule c6)
    subgoal by (erule c7)
    subgoal by (rule c8)
    done
qed

lemmas parsePatternVarOrLet_bindsAs =
  parser_bindsAs[THEN conjunct2, THEN conjunct1, rule_format]

lemmas parsePatternVarOrLet_defined =
  parser_defined[THEN conjunct2, THEN conjunct1, rule_format]

section \<open>The selector loop and the curried loop return\<close>

lemma parseSelectorArgument_unfold:
  assumes "isAtStartOfBindingName C P"
  shows "parseSelectorArgument n C (A, B, names) P =
    (if Tok (afterLabel names P) \<noteq> tok_l_paren
     then Some (makeParserError, (A, B, namesAfter names (Tok P)),
                diagnose (Diagnostic func_selector_without_paren False) (afterLabel names P))
     else
       case parsePatternTuple n C True True (afterLabel names P) of
         None \<Rightarrow> None
       | Some (res, P3) \<Rightarrow>
           (case getPtrOrNull res of
              None \<Rightarrow>
                if isParseError res
                then map_option (\<lambda>P'. (statusOf res, (A, B, namesAfter names (Tok P)), P'))
                       (recoverFromBadSelectorArgument n C P3)
                else Some (statusOf res, (A, B, namesAfter names (Tok P)), P3)
            | Some pat \<Rightarrow>
                (case innerElt pat of
                   Some e \<Rightarrow>
                     Some (makeParserSuccess,
                           (A @ [argElt (labelNode (Tok P)) e], B @ [e],
                            namesAfter names (Tok P)), P3)
                 | None \<Rightarrow>
                     (case pat of
                        TuplePattern es v i \<Rightarrow>
                          Some (makeParserError, (A, B, namesAfter names (Tok P)),
                                diagnose (Diagnostic func_selector_with_not_one_argument False) P3)
                      | _ \<Rightarrow> None))))"
proof -
  from assms consider (u) "Tok P = tok_kw_underscore" | (i) s where "Tok P = tok_identifier s"
    by (auto simp: isAtStartOfBindingName_def elim: is_identifier.elims)
  then show ?thesis
  proof cases
    case u
    then show ?thesis
      by (auto simp: parseSelectorArgument_def parsePatternIdentifier_def Let_def afterLabel_def
            labelNode_def namesAfter_def innerElt_def argElt_def makeParserResult_def
            rebuildImplicitPatternAround_def rebuild_eq
            split: Pattern.splits list.splits option.splits)
  next
    case i
    then show ?thesis
      by (auto simp: parseSelectorArgument_def parsePatternIdentifier_def Let_def afterLabel_def
            labelNode_def namesAfter_def innerElt_def argElt_def makeParserResult_def
            createBindingFromPattern_def
            rebuildImplicitPatternAround_def rebuild_eq
            split: Pattern.splits list.splits option.splits)
  qed
qed

lemma Toks_afterLabel: "Toks (afterLabel names P) = tl (Toks P)"
  by (auto simp: afterLabel_def consumeToken_def split: tok.splits)

lemma isAtStartOfBindingName_pos: "isAtStartOfBindingName C P \<Longrightarrow> 0 < length (Toks P)"
  by (cases "Toks P") (auto simp: isAtStartOfBindingName_def Tok_def)

lemmas parsePatternTuple_defined =
  parser_defined[THEN conjunct2, THEN conjunct2, THEN conjunct2, THEN conjunct2, THEN conjunct2,
                 THEN conjunct2, THEN conjunct2, rule_format]

lemma parseSelectorArgument_props:
  assumes C: "collabProgress C" and s: "isAtStartOfBindingName C P"
    and r: "parseSelectorArgument n C (A, B, names) P = Some (st, (A1, B1, names1), P1)"
  shows "length (Toks P1) < length (Toks P) \<and>
         ((A1 = A \<and> B1 = B) \<or> (\<exists>a b. A1 = A @ [a] \<and> B1 = B @ [b]))"
proof -
  let ?Q = "afterLabel names P"
  have pos: "0 < length (Toks P)" by (rule isAtStartOfBindingName_pos[OF s])
  have lq: "length (Toks ?Q) < length (Toks P)"
    using pos by (cases "Toks P") (auto simp: Toks_afterLabel)
  show ?thesis
  proof (cases "Tok ?Q \<noteq> tok_l_paren")
    case True
    with r lq show ?thesis by (simp add: parseSelectorArgument_unfold[OF s]) auto
  next
    case False
    with r have "parsePatternTuple n C True True ?Q \<noteq> None"
      by (simp add: parseSelectorArgument_unfold[OF s] split: option.splits)
    then obtain res P3 where pt: "parsePatternTuple n C True True ?Q = Some (res, P3)"
      by fastforce
    from parsePatternTuple_len_strict[OF C pt] lq have l3: "length (Toks P3) < length (Toks P)"
      by simp
    from parsePatternTuple_result[OF pt] obtain pat where pat: "getPtrOrNull res = Some pat"
      by blast
    from r False pt pat have r':
      "(case innerElt pat of
          Some e \<Rightarrow>
            Some (makeParserSuccess,
                  (A @ [argElt (labelNode (Tok P)) e], B @ [e], namesAfter names (Tok P)), P3)
        | None \<Rightarrow>
            (case pat of
               TuplePattern es v i \<Rightarrow>
                 Some (makeParserError, (A, B, namesAfter names (Tok P)),
                       diagnose (Diagnostic func_selector_with_not_one_argument False) P3)
             | _ \<Rightarrow> None)) = Some (st, (A1, B1, names1), P1)"
      by (simp add: parseSelectorArgument_unfold[OF s])
    show ?thesis
    proof (cases "innerElt pat")
      case None
      with r' l3 show ?thesis by (cases pat) auto
    next
      case (Some e)
      with r' l3 show ?thesis by auto
    qed
  qed
qed

lemma parseSelectorArgument_defined:
  assumes C: "collabProgress C" and s: "isAtStartOfBindingName C P"
    and b: "7 * length (Toks P) + 1 \<le> n"
  shows "parseSelectorArgument n C (A, B, names) P \<noteq> None"
proof -
  let ?Q = "afterLabel names P"
  have pos: "0 < length (Toks P)" by (rule isAtStartOfBindingName_pos[OF s])
  have lq: "length (Toks ?Q) < length (Toks P)"
    using pos by (cases "Toks P") (auto simp: Toks_afterLabel)
  show ?thesis
  proof (cases "Tok ?Q \<noteq> tok_l_paren")
    case True
    then show ?thesis by (simp add: parseSelectorArgument_unfold[OF s])
  next
    case False
    have "7 * length (Toks ?Q) + 1 \<le> n" using lq b by simp
    with False parsePatternTuple_defined[OF C, of ?Q n True True] obtain res P3 where
      pt: "parsePatternTuple n C True True ?Q = Some (res, P3)"
      by fastforce
    from parsePatternTuple_result[OF pt] obtain pat where pat: "getPtrOrNull res = Some pat"
      and sh: "(\<exists>sub i. pat = ParenPattern sub i) \<or> (\<exists>es v i. pat = TuplePattern es v i)"
      by blast
    have u: "parseSelectorArgument n C (A, B, names) P =
      (case innerElt pat of
          Some e \<Rightarrow>
            Some (makeParserSuccess,
                  (A @ [argElt (labelNode (Tok P)) e], B @ [e], namesAfter names (Tok P)), P3)
        | None \<Rightarrow>
            (case pat of
               TuplePattern es v i \<Rightarrow>
                 Some (makeParserError, (A, B, namesAfter names (Tok P)),
                       diagnose (Diagnostic func_selector_with_not_one_argument False) P3)
             | _ \<Rightarrow> None))"
      using False pt pat by (simp add: parseSelectorArgument_unfold[OF s])
    from sh show ?thesis
    proof
      assume "\<exists>sub i. pat = ParenPattern sub i"
      then obtain sub i where "pat = ParenPattern sub i" by blast
      then show ?thesis unfolding u by (simp add: innerElt_def)
    next
      assume "\<exists>es v i. pat = TuplePattern es v i"
      then obtain es v i where "pat = TuplePattern es v i" by blast
      then show ?thesis unfolding u by (cases "innerElt (TuplePattern es v i)") simp_all
    qed
  qed
qed

lemma selectorLoop_aligned:
  "collabProgress C \<Longrightarrow> selectorLoop n C (A, B, names) S P = Some (S', (A', B', names'), P') \<Longrightarrow>
   length A = length B \<Longrightarrow> length A' = length B'"
proof (induction n arbitrary: A B names S P)
  case 0
  then show ?case by simp
next
  case (Suc n)
  show ?case
  proof (cases "isAtStartOfBindingName C P")
    case True
    with Suc.prems(2) obtain st acc1 P1 where
      sa: "parseSelectorArgument n C (A, B, names) P = Some (st, acc1, P1)"
      and lp: "selectorLoop n C acc1 (status_or S st) P1 = Some (S', (A', B', names'), P')"
      by (auto split: option.splits)
    obtain A1 B1 names1 where acc1: "acc1 = (A1, B1, names1)" by (cases acc1) auto
    from parseSelectorArgument_props[OF Suc.prems(1) True sa[unfolded acc1]] Suc.prems(3)
    have "length A1 = length B1" by auto
    from Suc.IH[OF Suc.prems(1) lp[unfolded acc1] this] show ?thesis .
  next
    case False
    with Suc.prems show ?thesis by (auto split: if_splits)
  qed
qed

lemma selectorLoop_defined:
  "collabProgress C \<Longrightarrow> 7 * length (Toks P) + 2 \<le> n \<Longrightarrow>
   selectorLoop n C (A, B, names) S P \<noteq> None"
proof (induction n arbitrary: A B names S P)
  case 0
  then show ?case by simp
next
  case (Suc n)
  show ?case
  proof (cases "isAtStartOfBindingName C P")
    case True
    have "7 * length (Toks P) + 1 \<le> n" using Suc.prems(2) by simp
    from parseSelectorArgument_defined[OF Suc.prems(1) True this, of A B names]
    obtain st A1 B1 names1 P1 where
      sa: "parseSelectorArgument n C (A, B, names) P = Some (st, (A1, B1, names1), P1)"
      by fastforce
    from parseSelectorArgument_props[OF Suc.prems(1) True sa]
    have "length (Toks P1) < length (Toks P)" by simp
    then have "7 * length (Toks P1) + 2 \<le> n" using Suc.prems(2) by simp
    from Suc.IH[OF Suc.prems(1) this, of A1 B1 names1 "status_or S st"] sa True
    show ?thesis by simp
  next
    case False
    then show ?thesis by simp
  qed
qed

lemma selectorLoop_grows:
  "collabProgress C \<Longrightarrow> selectorLoop n C (A, B, names) S P = Some (S', (A', B', names'), P') \<Longrightarrow>
   length A \<le> length A'"
proof (induction n arbitrary: A B names S P)
  case 0
  then show ?case by simp
next
  case (Suc n)
  show ?case
  proof (cases "isAtStartOfBindingName C P")
    case True
    with Suc.prems(2) obtain st acc1 P1 where
      sa: "parseSelectorArgument n C (A, B, names) P = Some (st, acc1, P1)"
      and lp: "selectorLoop n C acc1 (status_or S st) P1 = Some (S', (A', B', names'), P')"
      by (auto split: option.splits)
    obtain A1 B1 names1 where acc1: "acc1 = (A1, B1, names1)" by (cases acc1) auto
    from parseSelectorArgument_props[OF Suc.prems(1) True sa[unfolded acc1]]
    have "length A \<le> length A1" by auto
    with Suc.IH[OF Suc.prems(1) lp[unfolded acc1]] show ?thesis by simp
  next
    case False
    with Suc.prems show ?thesis by (auto split: if_splits)
  qed
qed

lemma firstSelectorElts_shape:
  assumes "(\<exists>sub i. First = ParenPattern sub i) \<or> (\<exists>es v i. First = TuplePattern es v i)"
  shows "\<exists>a b P1. firstSelectorElts (Some First) P = Some (([a], [b]), P1) \<and> Toks P1 = Toks P"
  using assms
  by (auto simp: firstSelectorElts_def Let_def split: list.splits)

lemma parseSelectorFunctionArguments_defined:
  assumes "collabProgress C"
    and "(\<exists>sub i. First = ParenPattern sub i) \<or> (\<exists>es v i. First = TuplePattern es v i)"
    and "7 * length (Toks P) + 2 \<le> n"
  shows "parseSelectorFunctionArguments n C pats (Some First) P \<noteq> None"
proof -
  from firstSelectorElts_shape[OF assms(2), of P] obtain a b P1 where
    f: "firstSelectorElts (Some First) P = Some (([a], [b]), P1)" and t: "Toks P1 = Toks P"
    by blast
  from assms(3) t have "7 * length (Toks P1) + 2 \<le> n" by simp
  from selectorLoop_defined[OF assms(1) this, of "[a]" "[b]" Map.empty makeParserSuccess]
  show ?thesis by (auto simp: parseSelectorFunctionArguments_def f)
qed

lemma parseSelectorFunctionArguments_result:
  assumes "collabProgress C"
    and "parseSelectorFunctionArguments n C pats First P = Some (S, pats', P')"
  shows "\<exists>A B. fst pats' = fst pats @ [Some (TuplePattern A False True)] \<and>
               snd pats' = snd pats @ [Some (TuplePattern B False False)] \<and>
               length A = length B \<and> 0 < length A"
proof -
  from assms(2) obtain A0 B0 P1 where
    f: "firstSelectorElts First P = Some ((A0, B0), P1)"
    by (auto simp: parseSelectorFunctionArguments_def split: option.splits)
  have l0: "length A0 = length B0" "0 < length A0"
    using f by (auto simp: firstSelectorElts_def Let_def split: option.splits Pattern.splits list.splits)
  from assms(2) f obtain A B names' where
    l: "selectorLoop n C (A0, B0, Map.empty) makeParserSuccess P1 = Some (S, (A, B, names'), P')"
    and p: "pats' = (fst pats @ [Some (TuplePattern A False True)],
                     snd pats @ [Some (TuplePattern B False False)])"
    by (auto simp: parseSelectorFunctionArguments_def split: option.splits)
  from selectorLoop_aligned[OF assms(1) l l0(1)] have e: "length A = length B" .
  from selectorLoop_grows[OF assms(1) l] l0(2) have "0 < length A" by (cases A) auto
  with e p show ?thesis by auto
qed

lemma parseCurriedFunctionArguments_appends:
  "parseCurriedFunctionArguments n C (A, B) P = Some (S, (A', B'), P') \<Longrightarrow>
   \<exists>xs. A' = A @ map Some xs \<and> B' = B @ map Some xs"
proof (induction n arbitrary: A B P)
  case 0
  then show ?case by simp
next
  case (Suc n)
  show ?case
  proof (cases "Tok P = tok_l_paren")
    case False
    with Suc.prems have "A' = A @ map Some []" "B' = B @ map Some []" by auto
    then show ?thesis by blast
  next
    case True
    with Suc.prems have "parsePatternTuple n C False True P \<noteq> None"
      by (auto split: option.splits)
    then obtain pattern P1 where pt: "parsePatternTuple n C False True P = Some (pattern, P1)"
      by fastforce
    from parsePatternTuple_result[OF pt] obtain p where p: "getPtrOrNull pattern = Some p"
      by blast
    show ?thesis
    proof (cases "resHasCodeCompletion pattern")
      case c: True
      with Suc.prems True pt have "A' = A @ map Some []" "B' = B @ map Some []" by auto
      then show ?thesis by blast
    next
      case c: False
      with Suc.prems True pt p have
        "parseCurriedFunctionArguments n C (A @ [Some p], B @ [Some p]) P1 = Some (S, (A', B'), P')"
        by (simp add: isNull_def)
      from Suc.IH[OF this] obtain xs where
        "A' = (A @ [Some p]) @ map Some xs" "B' = (B @ [Some p]) @ map Some xs" by blast
      then have "A' = A @ map Some (p # xs)" "B' = B @ map Some (p # xs)" by simp_all
      then show ?thesis by blast
    qed
  qed
qed

lemma parseCurriedFunctionArguments_defined:
  "collabProgress C \<Longrightarrow> 7 * length (Toks P) + 2 \<le> n \<Longrightarrow>
   parseCurriedFunctionArguments n C pats P \<noteq> None"
proof (induction n arbitrary: pats P)
  case 0
  then show ?case by simp
next
  case (Suc n)
  show ?case
  proof (cases "Tok P = tok_l_paren")
    case False
    then show ?thesis by simp
  next
    case True
    have "7 * length (Toks P) + 1 \<le> n" using Suc.prems(2) by simp
    from parsePatternTuple_defined[OF Suc.prems(1) this True, of False True]
    obtain pattern P1 where pt: "parsePatternTuple n C False True P = Some (pattern, P1)"
      by fastforce
    from parsePatternTuple_len_strict[OF Suc.prems(1) pt] Suc.prems(2)
    have "7 * length (Toks P1) + 2 \<le> n" by simp
    from Suc.IH[OF Suc.prems(1) this] True pt show ?thesis by simp
  qed
qed

lemma parseFunctionArgumentsFrom_result:
  assumes C: "collabProgress C"
    and p: "getPtrOrNull FirstPattern = Some p"
    and r: "parseFunctionArgumentsFrom n C FirstPattern pats H P = Some (S, pats', H', P')"
  shows "\<exists>as bs. as \<noteq> [] \<and> length as = length bs \<and>
           fst pats' = fst pats @ map Some as \<and> snd pats' = snd pats @ map Some bs"
proof (cases "isAtStartOfBindingName C P")
  case True
  with r p obtain S1 where
    "parseSelectorFunctionArguments n C pats (Some p) P = Some (S1, pats', P')"
    by (auto simp: parseFunctionArgumentsFrom_def isNull_def Let_def)
  from parseSelectorFunctionArguments_result[OF C this] obtain A B where
    "fst pats' = fst pats @ [Some (TuplePattern A False True)]"
    "snd pats' = snd pats @ [Some (TuplePattern B False False)]" by blast
  then have "fst pats' = fst pats @ map Some [TuplePattern A False True]"
    "snd pats' = snd pats @ map Some [TuplePattern B False False]" by simp_all
  then show ?thesis by (metis length_Cons list.distinct(1) list.size(3))
next
  case False
  with r p obtain S1 A' B' where
    c: "parseCurriedFunctionArguments n C (fst pats @ [Some p], snd pats @ [Some p]) P =
          Some (S1, (A', B'), P')" and e: "pats' = (A', B')"
    by (cases pats') (auto simp: parseFunctionArgumentsFrom_def isNull_def Let_def)
  from parseCurriedFunctionArguments_appends[OF c] obtain xs where
    "A' = (fst pats @ [Some p]) @ map Some xs" "B' = (snd pats @ [Some p]) @ map Some xs"
    by blast
  then have "fst pats' = fst pats @ map Some (p # xs)" "snd pats' = snd pats @ map Some (p # xs)"
    using e by simp_all
  then show ?thesis by (metis list.distinct(1))
qed

lemma parseFunctionArgumentsFrom_defined:
  assumes C: "collabProgress C"
    and p: "getPtrOrNull FirstPattern = Some p"
    and sh: "(\<exists>sub i. p = ParenPattern sub i) \<or> (\<exists>es v i. p = TuplePattern es v i)"
    and b: "7 * length (Toks P) + 2 \<le> n"
  shows "parseFunctionArgumentsFrom n C FirstPattern pats H P \<noteq> None"
proof (cases "isAtStartOfBindingName C P")
  case True
  with parseSelectorFunctionArguments_defined[OF C sh b, of pats] p show ?thesis
    by (auto simp: parseFunctionArgumentsFrom_def isNull_def Let_def)
next
  case False
  with parseCurriedFunctionArguments_defined[OF C b, of "(fst pats @ [Some p], snd pats @ [Some p])"] p
  show ?thesis
    by (auto simp: parseFunctionArgumentsFrom_def isNull_def Let_def)
qed

section \<open>The default-argument counter\<close>

lemma advances_refl [simp]: "advances 0 P P"
  by (simp add: advances_def)

lemma advances_trans: "advances i P Q \<Longrightarrow> advances j Q R \<Longrightarrow> advances (i + j) P R"
  by (auto simp: advances_def)

lemma advances_trans0: "advances 0 P Q \<Longrightarrow> advances 0 Q R \<Longrightarrow> advances 0 P R"
  using advances_trans[of 0 P Q 0 R] by simp

lemma advances_upd [simp]:
  "advances j P (Q\<lparr>Toks := t\<rparr>) = advances j P Q"
  "advances j P (Q\<lparr>Diags := d\<rparr>) = advances j P Q"
  "advances j P (Q\<lparr>InVarOrLetPattern := v\<rparr>) = advances j P Q"
  "advances j (P\<lparr>Toks := t\<rparr>) Q = advances j P Q"
  "advances j (P\<lparr>Diags := d\<rparr>) Q = advances j P Q"
  "advances j (P\<lparr>InVarOrLetPattern := v\<rparr>) Q = advances j P Q"
  by (simp_all add: advances_def)

lemma advances_consumeToken [simp]:
  "advances j P (consumeToken Q) = advances j P Q"
  "advances j (consumeToken P) Q = advances j P Q"
  by (simp_all add: consumeToken_def)

lemma advances_diagnose [simp]:
  "advances j P (diagnose d Q) = advances j P Q"
  "advances j (diagnose d P) Q = advances j P Q"
  by (simp_all add: diagnose_def)

lemma advances_parsePatternIdentifier: "advances 0 P (snd (parsePatternIdentifier l P))"
  by (auto simp: parsePatternIdentifier_def split: tok.splits)

lemma parseDefaultArgument_advances:
  assumes "parseDefaultArgument n C d k i P = Some (r, P')"
  shows "NextIndex P' = NextIndex P \<and>
         CreatedContexts P' =
           CreatedContexts P @ [DefaultArgumentContext (length (CreatedContexts P)) k]"
proof -
  let ?A = "afterInit C d k P"
  from parseDefaultArgument_fields[OF assms] have e: "P' = ?A\<lparr>Toks := Toks P'\<rparr>" .
  have c: "CreatedContexts P' = CreatedContexts ?A" by (subst e) simp
  have x: "NextIndex P' = NextIndex ?A" by (subst e) simp
  show ?thesis unfolding c x by (simp add: afterInit_def Let_def diagnose_def)
qed

lemma parser_frame:
  "(\<forall>l P r P'. parsePattern n C l P = Some (r, P') \<longrightarrow> advances 0 P P') \<and>
   (\<forall>P r P'. parsePatternVarOrLet n C P = Some (r, P') \<longrightarrow> advances 0 P P') \<and>
   (\<forall>l P r P'. parsePatternAtom n C l P = Some (r, P') \<longrightarrow> advances 0 P P') \<and>
   (\<forall>d l P r P'. parsePatternTupleElement n C d l P = Some (r, P') \<longrightarrow>
      advances (if d then 1 else 0) P P') \<and>
   (\<forall>d l acc P s acc' P'. parsePatternTupleCallback n C d l acc P = Some (s, acc', P') \<longrightarrow>
      advances (if d then 1 else 0) P P') \<and>
   (\<forall>l P s acc' P'. parseList n C False l P = Some (s, acc', P') \<longrightarrow> advances 0 P P') \<and>
   (\<forall>l S acc P s acc' P'. parseListLoop n C False l S acc P = Some (s, acc', P') \<longrightarrow>
      advances 0 P P') \<and>
   (\<forall>l P r P'. parsePatternTuple n C False l P = Some (r, P') \<longrightarrow> advances 0 P P')"
proof (induction n)
  case 0
  show ?case by simp
next
  case (Suc n)
  note IH1 = Suc.IH[THEN conjunct1, rule_format]
  note IH2 = Suc.IH[THEN conjunct2, THEN conjunct1, rule_format]
  note IH3 = Suc.IH[THEN conjunct2, THEN conjunct2, THEN conjunct1, rule_format]
  note IH4 = Suc.IH[THEN conjunct2, THEN conjunct2, THEN conjunct2, THEN conjunct1, rule_format]
  note IH5 = Suc.IH[THEN conjunct2, THEN conjunct2, THEN conjunct2, THEN conjunct2, THEN conjunct1, rule_format]
  note IH6 = Suc.IH[THEN conjunct2, THEN conjunct2, THEN conjunct2, THEN conjunct2, THEN conjunct2, THEN conjunct1, rule_format]
  note IH7 = Suc.IH[THEN conjunct2, THEN conjunct2, THEN conjunct2, THEN conjunct2, THEN conjunct2, THEN conjunct2, THEN conjunct1, rule_format]
  note IH8 = Suc.IH[THEN conjunct2, THEN conjunct2, THEN conjunct2, THEN conjunct2, THEN conjunct2, THEN conjunct2, THEN conjunct2, rule_format]
  have c1: "advances 0 P P'" if a: "parsePattern (Suc n) C l P = Some (r, P')" for l P r P'
  proof (cases "Tok P = tok_kw_let \<or> Tok P = tok_kw_var")
    case True
    with a have "parsePatternVarOrLet n C P = Some (r, P')" by simp
    from IH2[OF this] show ?thesis .
  next
    case False
    with a have "parsePatternAtom n C l P \<noteq> None" by (auto split: option.splits)
    then obtain Result P1 where at: "parsePatternAtom n C l P = Some (Result, P1)" by fastforce
    from IH3[OF at] have f: "advances 0 P P1" .
    from a False at have "P' = P1 \<or> P' = (consumeToken P1)\<lparr>Toks := snd (parseTypeAnnotation C (Toks (consumeToken P1)))\<rparr>"
      by (auto simp: Let_def split: if_splits option.splits)
    with f show ?thesis by auto
  qed
  have c2: "advances 0 P P'" if a: "parsePatternVarOrLet (Suc n) C P = Some (r, P')" for P r P'
  proof -
    let ?P3 = "(if InVarOrLetPattern (consumeToken P) \<noteq> IVOLP_NotInVarOrLet
                  then diagnose (Diagnostic var_pattern_in_var False) (consumeToken P) else (consumeToken P))
                  \<lparr>InVarOrLetPattern := (if Tok P = tok_kw_let then IVOLP_InLet else IVOLP_InVar)\<rparr>"
    from a have t: "Tok P = tok_kw_let \<or> Tok P = tok_kw_var" by (auto split: if_splits)
    from a t have "parsePattern n C (Tok P = tok_kw_let) ?P3 \<noteq> None"
      by (auto simp: Let_def split: option.splits)
    then obtain sub P4 where s: "parsePattern n C (Tok P = tok_kw_let) ?P3 = Some (sub, P4)"
      by fastforce
    from IH1[OF s] have f: "advances 0 P P4" by (simp split: if_splits)
    from a t s obtain v where "P' = P4\<lparr>InVarOrLetPattern := v\<rparr>"
      by (auto simp: Let_def split: option.splits)
    with f show ?thesis by simp
  qed
  have c3: "advances 0 P P'" if a: "parsePatternAtom (Suc n) C l P = Some (r, P')" for l P r P'
  proof (cases "Tok P = tok_l_paren")
    case True
    with a have "parsePatternTuple n C False l P = Some (r, P')" by simp
    from IH8[OF this] show ?thesis .
  next
    case False
    with a advances_parsePatternIdentifier[of P l] show ?thesis
      by (cases "parsePatternIdentifier l P") (auto split: if_splits)
  qed
  have c4: "advances (if d then 1 else 0) P P'"
    if a: "parsePatternTupleElement (Suc n) C d l P = Some (r, P')" for d l P r P'
  proof -
    let ?P0 = "(if d then P\<lparr>NextIndex := NextIndex P + 1\<rparr> else P)"
    have s0: "advances (if d then 1 else 0) P ?P0" by (simp add: advances_def)
    from a have "parsePattern n C l ?P0 \<noteq> None"
      by (auto simp: Let_def split: option.splits)
    then obtain pattern P1 where p: "parsePattern n C l ?P0 = Some (pattern, P1)"
      by fastforce
    from advances_trans[OF s0 IH1[OF p]] have f: "advances (if d then 1 else 0) P P1" by simp
    show ?thesis
    proof (cases "P' = P1")
      case True
      with f show ?thesis by simp
    next
      case False
      with a p obtain q where "parseDefaultArgument n C d (if d then NextIndex P else 0) None P1 = Some (q, P')"
        by (auto simp: Let_def split: option.splits if_splits)
      from parseDefaultArgument_advances[OF this] have "advances 0 P1 P'"
        by (simp add: advances_def)
      from advances_trans[OF f this] show ?thesis by simp
    qed
  qed
  have c5: "advances (if d then 1 else 0) P P'"
    if a: "parsePatternTupleCallback (Suc n) C d l acc P = Some (s, acc', P')" for d l acc P s acc' P'
  proof -
    from a have "parsePatternTupleElement n C d l P \<noteq> None"
      by (auto split: option.splits)
    then obtain es elt P1 where e: "parsePatternTupleElement n C d l P = Some ((es, elt), P1)"
      by fastforce
    from IH4[OF e] have f: "advances (if d then 1 else 0) P P1" .
    from a e have "P' = P1 \<or> P' = consumeToken P1 \<or> (\<exists>g. P' = diagnose g (consumeToken P1))"
      by (auto simp: Let_def split: if_splits option.splits Pattern.splits)
    with f show ?thesis by auto
  qed
  have c6: "advances 0 P P'" if a: "parseList (Suc n) C False l P = Some (s, acc', P')" for l P s acc' P'
    using a IH7[of l makeParserSuccess "([], None)" P s acc' P']
    by (auto split: if_splits)
  have c7: "advances 0 P P'"
    if a: "parseListLoop (Suc n) C False l S acc P = Some (s, acc', P')" for l S acc P s acc' P'
  proof -
    from a have "parsePatternTupleCallback n C False l acc P \<noteq> None"
      by (auto split: option.splits)
    then obtain s1 acc1 P1 where cb: "parsePatternTupleCallback n C False l acc P = Some (s1, acc1, P1)"
      by fastforce
    from IH5[OF cb] have f: "advances 0 P P1" by simp
    show ?thesis
    proof (cases "Tok P1 = tok_comma \<and> Tok P1 \<noteq> tok_r_paren")
      case True
      with a cb have "parseListLoop n C False l (status_or S s1) acc1 (consumeToken P1) = Some (s, acc', P')"
        by simp
      from IH7[OF this] have "advances 0 P1 P'" by simp
      from advances_trans0[OF f this] show ?thesis .
    next
      case False
      with a cb f show ?thesis by (auto split: if_splits)
    qed
  qed
  have c8: "advances 0 P P'" if a: "parsePatternTuple (Suc n) C False l P = Some (r, P')" for l P r P'
  proof -
    from a obtain S acc where pl: "parseList n C False l (consumeToken P) = Some (S, acc, P')"
      by (auto split: if_splits option.splits)
    from IH6[OF pl] show ?thesis by simp
  qed
  show ?case
    apply (intro conjI allI impI)
    subgoal by (erule c1)
    subgoal by (erule c2)
    subgoal by (erule c3)
    subgoal by (erule c4)
    subgoal by (erule c5)
    subgoal by (erule c6)
    subgoal by (erule c7)
    subgoal by (erule c8)
    done
qed

lemmas parsePattern_frame = parser_frame[THEN conjunct1, rule_format]
lemmas parsePatternTupleElement_frame =
  parser_frame[THEN conjunct2, THEN conjunct2, THEN conjunct2, THEN conjunct1, rule_format]

lemma eltContexts_Nil [simp]: "eltContexts k [] []"
  by (simp add: eltContexts_def)

lemma eltContexts_snoc:
  assumes "eltContexts k es ctxss"
    and "getInit e \<noteq> None \<Longrightarrow> cs \<noteq> [] \<and> ctxArgIndex (last cs) = k + of_nat (length es)"
  shows "eltContexts k (es @ [e]) (ctxss @ [cs])"
  using assms by (auto simp: eltContexts_def nth_append less_Suc_eq)

lemma parsePatternTupleElement_index:
  assumes a: "parsePatternTupleElement n C True l P = Some ((s, elt), P')"
  shows "NextIndex P' = NextIndex P + 1 \<and>
         (\<exists>cs. CreatedContexts P' = CreatedContexts P @ cs \<and>
            (\<forall>e. elt = Some e \<longrightarrow> getInit e \<noteq> None \<longrightarrow>
               cs \<noteq> [] \<and> ctxArgIndex (last cs) = NextIndex P))"
proof (cases n)
  case 0
  with a show ?thesis by simp
next
  case (Suc m)
  let ?P0 = "P\<lparr>NextIndex := NextIndex P + 1\<rparr>"
  from parsePatternTupleElement_frame[OF a] have x: "NextIndex P' = NextIndex P + 1"
    by (simp add: advances_def)
  from a Suc have "parsePattern m C l ?P0 \<noteq> None"
    by (auto simp: Let_def split: option.splits)
  then obtain pattern P1 where p: "parsePattern m C l ?P0 = Some (pattern, P1)"
    by fastforce
  from parsePattern_frame[OF p] obtain cs1 where
    c1: "CreatedContexts P1 = CreatedContexts P @ cs1" by (auto simp: advances_def)
  show ?thesis
  proof (cases "\<exists>e. elt = Some e \<and> getInit e \<noteq> None")
    case False
    from parsePatternTupleElement_frame[OF a] False x show ?thesis
      by (auto simp: advances_def)
  next
    case True
    then obtain e where e: "elt = Some e" "getInit e \<noteq> None" by blast
    from a Suc p e obtain q where
      "parseDefaultArgument m C True (NextIndex P) None P1 = Some (q, P')"
      by (auto simp: Let_def split: option.splits if_splits)
    from parseDefaultArgument_advances[OF this] c1
    have "CreatedContexts P' =
            CreatedContexts P @ (cs1 @ [DefaultArgumentContext (length (CreatedContexts P1)) (NextIndex P)])"
      by simp
    with x show ?thesis by (intro conjI exI[of _ "cs1 @ [DefaultArgumentContext (length (CreatedContexts P1)) (NextIndex P)]"]) auto
  qed
qed

lemma parsePatternTupleCallback_index:
  assumes a: "parsePatternTupleCallback n C True l acc P = Some (s, acc', P')"
    and ok: "\<not> isError s"
  shows "\<exists>e cs. fst acc' = fst acc @ [e] \<and> NextIndex P' = NextIndex P + 1 \<and>
           CreatedContexts P' = CreatedContexts P @ cs \<and>
           (getInit e \<noteq> None \<longrightarrow> cs \<noteq> [] \<and> ctxArgIndex (last cs) = NextIndex P)"
proof (cases n)
  case 0
  with a show ?thesis by simp
next
  case (Suc m)
  from a Suc have "parsePatternTupleElement m C True l P \<noteq> None"
    by (auto split: option.splits)
  then obtain es elt P1 where e: "parsePatternTupleElement m C True l P = Some ((es, elt), P1)"
    by fastforce
  from parsePatternTupleElement_index[OF e] obtain cs where
    x: "NextIndex P1 = NextIndex P + 1" and c: "CreatedContexts P1 = CreatedContexts P @ cs"
    and i: "\<And>e. elt = Some e \<Longrightarrow> getInit e \<noteq> None \<Longrightarrow> cs \<noteq> [] \<and> ctxArgIndex (last cs) = NextIndex P"
    by blast
  from a Suc e ok obtain x0 where el: "elt = Some x0" and acc: "fst acc' = fst acc @ [x0]"
    by (auto simp: Let_def makeParserError_def makeParserCodeCompletionStatus_def
          split: if_splits option.splits Pattern.splits)
  from a Suc e have "P' = P1 \<or> P' = consumeToken P1 \<or> (\<exists>g. P' = diagnose g (consumeToken P1))"
    by (auto simp: Let_def split: if_splits option.splits Pattern.splits)
  then have same: "NextIndex P' = NextIndex P1" "CreatedContexts P' = CreatedContexts P1"
    by (auto simp: consumeToken_def diagnose_def)
  show ?thesis
    using acc x c i[OF el] same by auto
qed

lemma status_or_isError [simp]: "isError (status_or a b) = (isError a \<or> isError b)"
  by (simp add: status_or_def)

lemma setIsParseError_isError [simp]: "isError (setIsParseError s)"
  by (simp add: setIsParseError_def)

lemma parseListLoop_isError:
  "parseListLoop n C d l S acc P = Some (S', acc', P') \<Longrightarrow> isError S \<Longrightarrow> isError S'"
proof (induction n arbitrary: S acc P)
  case 0
  then show ?case by simp
next
  case (Suc n)
  from Suc.prems(1) have "parsePatternTupleCallback n C d l acc P \<noteq> None"
    by (auto split: option.splits)
  then obtain s1 acc1 P1 where cb: "parsePatternTupleCallback n C d l acc P = Some (s1, acc1, P1)"
    by fastforce
  show ?case
  proof (cases "Tok P1 = tok_comma \<and> Tok P1 \<noteq> tok_r_paren")
    case True
    with Suc.prems(1) cb have "parseListLoop n C d l (status_or S s1) acc1 (consumeToken P1) = Some (S', acc', P')"
      by simp
    from Suc.IH[OF this] Suc.prems(2) show ?thesis by simp
  next
    case False
    with Suc.prems cb show ?thesis by (auto split: if_splits)
  qed
qed

lemma parseListLoop_index:
  assumes "parseListLoop n C True l S acc P = Some (S', acc', P')"
    and "\<not> isError S'"
    and "NextIndex P = k + of_nat (length (fst acc))"
    and "CreatedContexts P = base @ concat ctxss"
    and "eltContexts k (fst acc) ctxss"
  shows "\<exists>ctxss'. NextIndex P' = k + of_nat (length (fst acc')) \<and>
           CreatedContexts P' = base @ concat ctxss' \<and> eltContexts k (fst acc') ctxss'"
  using assms
proof (induction n arbitrary: S acc P ctxss)
  case 0
  then show ?case by simp
next
  case (Suc n)
  from Suc.prems(1) have "parsePatternTupleCallback n C True l acc P \<noteq> None"
    by (auto split: option.splits)
  then obtain s1 acc1 P1 where cb: "parsePatternTupleCallback n C True l acc P = Some (s1, acc1, P1)"
    by fastforce
  have ok1: "\<not> isError s1"
  proof (cases "Tok P1 = tok_comma \<and> Tok P1 \<noteq> tok_r_paren")
    case True
    with Suc.prems(1) cb have "parseListLoop n C True l (status_or S s1) acc1 (consumeToken P1) = Some (S', acc', P')"
      by simp
    from parseListLoop_isError[OF this] Suc.prems(2) show ?thesis by auto
  next
    case False
    with Suc.prems(1,2) cb show ?thesis by (auto split: if_splits)
  qed
  from parsePatternTupleCallback_index[OF cb ok1] obtain e cs where
    acc1: "fst acc1 = fst acc @ [e]" and x1: "NextIndex P1 = NextIndex P + 1"
    and c1: "CreatedContexts P1 = CreatedContexts P @ cs"
    and i1: "getInit e \<noteq> None \<longrightarrow> cs \<noteq> [] \<and> ctxArgIndex (last cs) = NextIndex P"
    by blast
  have inv1: "NextIndex P1 = k + of_nat (length (fst acc1))"
    using x1 acc1 Suc.prems(3) by simp
  have inv2: "CreatedContexts P1 = base @ concat (ctxss @ [cs])"
    using c1 Suc.prems(4) by simp
  have inv3: "eltContexts k (fst acc1) (ctxss @ [cs])"
    unfolding acc1 using eltContexts_snoc[OF Suc.prems(5)] i1 Suc.prems(3) by simp
  show ?case
  proof (cases "Tok P1 = tok_comma \<and> Tok P1 \<noteq> tok_r_paren")
    case True
    with Suc.prems(1) cb have run: "parseListLoop n C True l (status_or S s1) acc1 (consumeToken P1) = Some (S', acc', P')"
      by simp
    show ?thesis
      by (rule Suc.IH[OF run Suc.prems(2), of "ctxss @ [cs]"])
         (use inv1 inv2 inv3 in \<open>simp_all add: consumeToken_def\<close>)
  next
    case False
    with Suc.prems(1,2) cb have "acc' = acc1" "NextIndex P' = NextIndex P1"
      "CreatedContexts P' = CreatedContexts P1"
      by (auto simp: consumeToken_def diagnose_def split: if_splits)
    with inv1 inv2 inv3 show ?thesis
      by (intro exI[of _ "ctxss @ [cs]"]) simp
  qed
qed

lemma parsePatternTuple_index:
  assumes a: "parsePatternTuple n C True l P = Some (res, P')" and ok: "\<not> isParseError res"
  shows "\<exists>es v ctxss. getPtrOrNull res = Some (createSimple es v) \<and>
           NextIndex P' = NextIndex P + of_nat (length es) \<and>
           CreatedContexts P' = CreatedContexts P @ concat ctxss \<and>
           eltContexts (NextIndex P) es ctxss"
proof (cases n)
  case 0
  with a show ?thesis by simp
next
  case (Suc m)
  with a obtain S acc where pl: "parseList m C True l (consumeToken P) = Some (S, acc, P')"
    and r: "res = makeParserResultStatus S (createSimple (fst acc) (snd acc \<noteq> None))"
    by (auto split: if_splits option.splits)
  from r ok have okS: "\<not> isError S" by (simp add: isParseError_def makeParserResultStatus_def)
  show ?thesis
  proof (cases m)
    case 0
    with pl show ?thesis by simp
  next
    case (Suc j)
    show ?thesis
    proof (cases "Tok (consumeToken P) = tok_r_paren")
      case True
      with pl Suc have "acc = ([], None)" "P' = consumeToken (consumeToken P)" by auto
      with r show ?thesis
        by (intro exI[of _ "[]"] exI[of _ "snd acc \<noteq> None"])
           (simp add: makeParserResultStatus_def consumeToken_def)
    next
      case False
      with pl Suc have run: "parseListLoop j C True l makeParserSuccess ([], None) (consumeToken P) = Some (S, acc, P')"
        by simp
      from parseListLoop_index[OF run okS, of "NextIndex P" "CreatedContexts P" "[]"]
      obtain ctxss' where "NextIndex P' = NextIndex P + of_nat (length (fst acc))"
        "CreatedContexts P' = CreatedContexts P @ concat ctxss'"
        "eltContexts (NextIndex P) (fst acc) ctxss'"
        by (auto simp: consumeToken_def)
      with r show ?thesis
        by (intro exI[of _ "fst acc"] exI[of _ "snd acc \<noteq> None"] exI[of _ ctxss'])
           (simp add: makeParserResultStatus_def)
    qed
  qed
qed

section \<open>Tuples of valid inputs\<close>

lemma parsePatternTupleElement_status:
  "parsePatternTupleElement n C d l P = Some ((s, Some e), P1) \<Longrightarrow> s = makeParserSuccess"
  by (cases n) (auto simp: Let_def split: option.splits if_splits)

lemma parsePatternTupleElement_fuel:
  "parsePatternTupleElement n C d l P = Some r \<Longrightarrow> n \<le> m \<Longrightarrow>
   parsePatternTupleElement m C d l P = Some r"
  using le_opt_fuel[of "\<lambda>n. parsePatternTupleElement n C d l P" n r m]
    parser_mono[THEN conjunct2, THEN conjunct2, THEN conjunct2, THEN conjunct1, rule_format]
  by blast

lemma Tok_diagnose [simp]: "Tok (diagnose g P) = Tok P"
  by (simp add: Tok_def diagnose_def)

lemma Tok_afterEllipsis [simp]: "Tok (afterEllipsis e P) = Tok (consumeToken P)"
  by (simp add: afterEllipsis_def)

lemma parsePatternTupleCallback_plain:
  assumes "parsePatternTupleElement n C d l P = Some ((s, Some e), P1)"
    and "Tok P1 \<noteq> tok_ellipsis"
  shows "parsePatternTupleCallback (Suc n) C d l acc P =
           Some (makeParserSuccess, (fst acc @ [e], snd acc), P1)"
  using assms parsePatternTupleElement_status[OF assms(1)]
  by (simp add: makeParserSuccess_def)

lemma parsePatternTupleCallback_dots:
  assumes "parsePatternTupleElement n C d l P = Some ((s, Some e), P1)"
    and "Tok P1 = tok_ellipsis"
  shows "parsePatternTupleCallback (Suc n) C d l acc P =
           Some (makeParserSuccess,
                 (fst acc @ [e], if ellipsisAccepted e P1 then getLoc P1 else snd acc),
                 afterEllipsis e P1)"
  using assms parsePatternTupleElement_status[OF assms(1)]
  by (auto simp: makeParserSuccess_def Let_def afterEllipsis_def ellipsisAccepted_def isTyped_def
        split: Pattern.splits)

lemma validElements_nonempty: "validElements C d l P es P1 \<Longrightarrow> es \<noteq> []"
  by (induction rule: validElements.induct) auto

lemma parseListLoop_valid:
  assumes "validElements C d l P es P1"
    and "Tok P1 = tok_r_paren \<or> (Tok P1 = tok_ellipsis \<and> Tok (consumeToken P1) = tok_r_paren)"
  shows "\<exists>n0. \<forall>n\<ge>n0. parseListLoop n C d l S (acc, None) P =
           Some (S, (acc @ es, if ellipsisAccepted (last es) P1 then getLoc P1 else None),
                 consumeToken (if Tok P1 = tok_ellipsis then afterEllipsis (last es) P1 else P1))"
  using assms
proof (induction arbitrary: acc rule: validElements.induct)
  case (lastElement n P s e P1)
  have "parseListLoop k C d l S (acc, None) P =
           Some (S, (acc @ [e], if ellipsisAccepted (last [e]) P1 then getLoc P1 else None),
                 consumeToken (if Tok P1 = tok_ellipsis then afterEllipsis (last [e]) P1 else P1))"
    if k: "Suc (Suc n) \<le> k" for k
  proof -
    from k obtain j where j: "k = Suc (Suc j)" "n \<le> j"
      by (metis Suc_le_D Suc_le_mono)
    from parsePatternTupleElement_fuel[OF lastElement.hyps j(2)]
    have el: "parsePatternTupleElement j C d l P = Some ((s, Some e), P1)" .
    show ?thesis
    proof (cases "Tok P1 = tok_ellipsis")
      case True
      with lastElement.prems have rp: "Tok (consumeToken P1) = tok_r_paren" by auto
      from parsePatternTupleCallback_dots[OF el True, of "(acc, None)"] rp True
      show ?thesis unfolding j(1) by simp
    next
      case False
      with lastElement.prems have rp: "Tok P1 = tok_r_paren" by auto
      from parsePatternTupleCallback_plain[OF el False, of "(acc, None)"] rp False
      show ?thesis unfolding j(1) by (simp add: ellipsisAccepted_def)
    qed
  qed
  then show ?case by blast
next
  case (moreElements n P s e P1 es P')
  from validElements_nonempty[OF moreElements.hyps(3)] have ne: "es \<noteq> []" .
  from moreElements.IH[OF moreElements.prems, of "acc @ [e]"] obtain n0 where
    ih: "\<forall>k\<ge>n0. parseListLoop k C d l S (acc @ [e], None) (consumeToken P1) =
           Some (S, ((acc @ [e]) @ es, if ellipsisAccepted (last es) P' then getLoc P' else None),
                 consumeToken (if Tok P' = tok_ellipsis then afterEllipsis (last es) P' else P'))"
    by blast
  have "parseListLoop k C d l S (acc, None) P =
           Some (S, (acc @ e # es, if ellipsisAccepted (last (e # es)) P' then getLoc P' else None),
                 consumeToken (if Tok P' = tok_ellipsis then afterEllipsis (last (e # es)) P' else P'))"
    if k: "Suc (Suc (max n n0)) \<le> k" for k
  proof -
    from k obtain j where j: "k = Suc (Suc j)" "max n n0 \<le> j"
      by (metis Suc_le_D Suc_le_mono)
    then have jn: "n \<le> j" and j0: "n0 \<le> Suc j" by auto
    from parsePatternTupleElement_fuel[OF moreElements.hyps(1) jn]
    have el: "parsePatternTupleElement j C d l P = Some ((s, Some e), P1)" .
    have ne1: "Tok P1 \<noteq> tok_ellipsis" "Tok P1 \<noteq> tok_r_paren"
      using moreElements.hyps(2) by simp_all
    from parsePatternTupleCallback_plain[OF el ne1(1), of "(acc, None)"]
    have cb: "parsePatternTupleCallback (Suc j) C d l (acc, None) P =
                Some (makeParserSuccess, (acc @ [e], None), P1)" by simp
    from ih j0 have
      "parseListLoop (Suc j) C d l S (acc @ [e], None) (consumeToken P1) =
           Some (S, ((acc @ [e]) @ es, if ellipsisAccepted (last es) P' then getLoc P' else None),
                 consumeToken (if Tok P' = tok_ellipsis then afterEllipsis (last es) P' else P'))"
      by blast
    with cb moreElements.hyps(2) ne show ?thesis unfolding j(1) by simp
  qed
  then show ?case by blast
qed

lemma parsePatternTupleElement_not_rparen:
  assumes "parsePatternTupleElement n C d l P = Some ((s, Some e), P1)"
  shows "Tok P \<noteq> tok_r_paren"
proof
  assume t: "Tok P = tok_r_paren"
  let ?P0 = "(if d then P\<lparr>NextIndex := NextIndex P + 1\<rparr> else P)"
  have t0: "Tok ?P0 = tok_r_paren" using t by (simp add: Tok_def)
  have "getPtrOrNull (fst r) = None" if "parsePattern m C l ?P0 = Some r" for m r
  proof (cases m)
    case 0
    with that show ?thesis by simp
  next
    case (Suc k)
    show ?thesis
    proof (cases k)
      case 0
      with that Suc t0 show ?thesis by simp
    next
      case (Suc i)
      have "parsePatternAtom (Suc i) C l ?P0 =
              Some (nullResult, diagnose (Diagnostic expected_pattern False) ?P0)"
        using t0 by simp
      with that \<open>m = Suc k\<close> Suc t0 show ?thesis
        by (auto simp: nullResult_def)
    qed
  qed
  with assms show False
    by (cases n) (auto simp: Let_def split: option.splits if_splits)
qed

section \<open>The pattern-tree rewriter\<close>

text \<open>
  C6. For every pattern \<open>P\<close> and replacement \<open>R\<close>, \<open>rebuildImplicitPatternAround P R\<close> is
  the rewrite the specification describes: a copy of \<open>P\<close> in which every \<open>Typed\<close>
  node's subpattern is \<open>R\<close> (with no descent below it) and every \<open>Named\<close> or \<open>Any\<close> leaf
  is \<open>R\<close>; every node of the result outside \<open>R\<close> is marked implicit; and when \<open>R\<close>
  is itself a binding or a wildcard the result has the nesting shape of \<open>P\<close>.
\<close>

theorem rebuildImplicitPatternAround_rewrite:
  "rebuildImplicitPatternAround P R = rewriteSpec R P \<and>
   newNodesImplicit R (rebuildImplicitPatternAround P R) \<and>
   (shapeOf R = SLeaf \<longrightarrow> shapeOf (rebuildImplicitPatternAround P R) = shapeOf P)"
  by (simp add: rebuildImplicitPatternAround_def rebuild_eq rewrite_implicit rewrite_shape)

theorem rebuildImplicitPatternAround_rewrite_witness:
  "rebuildImplicitPatternAround
     (ParenPattern
        (TypedPattern
           (NamedPattern \<lparr>getName = ''x'', isLet = True, declImplicit = False\<rparr> False)
           (NamedTypeRepr ''Int'') False) False)
     (AnyPattern True)
   = ParenPattern (TypedPattern (AnyPattern True) (NamedTypeRepr ''Int'') True) True \<and>
   shapeOf (AnyPattern True) = SLeaf \<and>
   shapeOf (rebuildImplicitPatternAround
     (ParenPattern
        (TypedPattern
           (NamedPattern \<lparr>getName = ''x'', isLet = True, declImplicit = False\<rparr> False)
           (NamedTypeRepr ''Int'') False) False)
     (AnyPattern True)) = SParen STyped"
  using rebuildImplicitPatternAround_rewrite
    [of "ParenPattern
        (TypedPattern
           (NamedPattern \<lparr>getName = ''x'', isLet = True, declImplicit = False\<rparr> False)
           (NamedTypeRepr ''Int'') False) False" "AnyPattern True"]
  by simp

section \<open>Default-argument contexts\<close>

text \<open>
  C10. \<open>parseDefaultArgument\<close> at an \<open>=\<close> token returns when given enough fuel, and
  whenever it returns: exactly one context was created, with the given argument index;
  that context was destroyed if and only if the initializer has no closures; it was
  appended to the manager's \<open>ParsedContexts\<close> if and only if the initializer has
  closures and a manager was supplied; with closures and no manager it is neither
  destroyed nor retained.
\<close>

theorem parseDefaultArgument_context:
  assumes "collabProgress C" and "Tok P = tok_equal"
  shows "(\<exists>fuel. parseDefaultArgument fuel C defaultArgs argIndex init P \<noteq> None) \<and>
         (\<forall>fuel r P'. parseDefaultArgument fuel C defaultArgs argIndex init P = Some (r, P') \<longrightarrow>
            CreatedContexts P' =
              CreatedContexts P @ [DefaultArgumentContext (length (CreatedContexts P)) argIndex] \<and>
            DestroyedContexts P' =
              DestroyedContexts P @
                (if \<not> snd (fst (parseExpr C (tl (Toks P))))
                 then [DefaultArgumentContext (length (CreatedContexts P)) argIndex] else []) \<and>
            ParsedContexts P' =
              ParsedContexts P @
                (if snd (fst (parseExpr C (tl (Toks P)))) \<and> defaultArgs
                 then [DefaultArgumentContext (length (CreatedContexts P)) argIndex] else []))"
proof (intro conjI allI impI)
  from parseDefaultArgument_total[OF assms(1) le_refl assms(2)]
  show "\<exists>fuel. parseDefaultArgument fuel C defaultArgs argIndex init P \<noteq> None" by fastforce
next
  fix fuel r P'
  assume a: "parseDefaultArgument fuel C defaultArgs argIndex init P = Some (r, P')"
  let ?A = "afterInit C defaultArgs argIndex P"
  from parseDefaultArgument_fields[OF a] have e: "P' = ?A\<lparr>Toks := Toks P'\<rparr>" .
  have c: "CreatedContexts P' = CreatedContexts ?A" by (subst e) simp
  have d: "DestroyedContexts P' = DestroyedContexts ?A" by (subst e) simp
  have p: "ParsedContexts P' = ParsedContexts ?A" by (subst e) simp
  show "CreatedContexts P' =
              CreatedContexts P @ [DefaultArgumentContext (length (CreatedContexts P)) argIndex]"
    unfolding c by (simp add: afterInit_def Let_def diagnose_def)
  show "DestroyedContexts P' =
              DestroyedContexts P @
                (if \<not> snd (fst (parseExpr C (tl (Toks P))))
                 then [DefaultArgumentContext (length (CreatedContexts P)) argIndex] else [])"
    unfolding d by (simp add: afterInit_def Let_def diagnose_def)
  show "ParsedContexts P' =
              ParsedContexts P @
                (if snd (fst (parseExpr C (tl (Toks P)))) \<and> defaultArgs
                 then [DefaultArgumentContext (length (CreatedContexts P)) argIndex] else [])"
    unfolding p by (simp add: afterInit_def Let_def diagnose_def)
qed

theorem parseDefaultArgument_context_witness:
  "collabProgress exampleCollab \<and>
   Tok (initialParser [tok_equal, tok_l_brace, tok_r_brace]) = tok_equal \<and>
   parseDefaultArgument 1 exampleCollab False 0 None
     (initialParser [tok_equal, tok_l_brace, tok_r_brace]) =
   Some ((makeParserSuccess, Some (ExprHandle (Some (OrdinaryExpr ''{}'')))),
         \<lparr>Toks = [], Diags = [Diagnostic non_func_decl_pattern_init True],
          InVarOrLetPattern = IVOLP_NotInVarOrLet, NextIndex = 0, ParsedContexts = [],
          CreatedContexts = [DefaultArgumentContext 0 0], DestroyedContexts = []\<rparr>)"
proof -
  have h1: "collabProgress exampleCollab" by (rule exampleCollab_progress)
  have h2: "Tok (initialParser [tok_equal, tok_l_brace, tok_r_brace]) = tok_equal" by simp
  have ev: "parseDefaultArgument 1 exampleCollab False 0 None
     (initialParser [tok_equal, tok_l_brace, tok_r_brace]) =
   Some ((makeParserSuccess, Some (ExprHandle (Some (OrdinaryExpr ''{}'')))),
         \<lparr>Toks = [], Diags = [Diagnostic non_func_decl_pattern_init True],
          InVarOrLetPattern = IVOLP_NotInVarOrLet, NextIndex = 0, ParsedContexts = [],
          CreatedContexts = [DefaultArgumentContext 0 0], DestroyedContexts = []\<rparr>)"
    by (simp add: parseDefaultArgument_def initialParser_def Tok_def consumeToken_def
          exampleCollab_def exampleParseExpr_def Let_def diagnose_def isNonNull_def isNull_def
          resHasCodeCompletion_def makeParserResult_def makeParserSuccess_def)
  from parseDefaultArgument_context[OF h1 h2, of False 0 None]
  show ?thesis using h1 h2 ev
    by (simp add: initialParser_def exampleCollab_def exampleParseExpr_def)
qed

section \<open>An initializer where no default arguments are accepted\<close>

text \<open>
  C2, the claim as stated fails: parsed without a manager, \<open>x = 1\<close> gives an element
  that carries the initializer \<open>1\<close>; the parsed expression is not discarded.
\<close>

theorem parsePatternTupleElement_keeps_initializer:
  "parsePatternTupleElement 4 exampleCollab False True
     (initialParser [tok_identifier ''x'', tok_equal, tok_other ''1'']) =
   Some ((makeParserSuccess,
          Some (TuplePatternElt
                  (NamedPattern \<lparr>getName = ''x'', isLet = True, declImplicit = False\<rparr> False)
                  (Some (ExprHandle (Some (OrdinaryExpr ''1'')))) DAK_Normal)),
         \<lparr>Toks = [], Diags = [Diagnostic non_func_decl_pattern_init True],
          InVarOrLetPattern = IVOLP_NotInVarOrLet, NextIndex = 0, ParsedContexts = [],
          CreatedContexts = [DefaultArgumentContext 0 0],
          DestroyedContexts = [DefaultArgumentContext 0 0]\<rparr>)"
  by code_simp

text \<open>
  C2, amended. When a tuple element is parsed without a manager and its pattern is
  followed by \<open>=\<close>, the element parse returns the success status with an element for
  the pattern, the diagnostic \<open>non_func_decl_pattern_init\<close> is emitted, with the
  removal of the initializer text attached exactly when the initializer expression is
  non-null, and the element carries the parsed initializer and its kind when the
  expression parsed, and no initializer when it did not (or asked for completion).
\<close>

theorem parsePatternTupleElement_null_manager_init:
  assumes "collabProgress C"
    and "parsePattern n C isLet' P = Some (pattern, P1)"
    and "getPtrOrNull pattern = Some p"
    and "\<not> resHasCodeCompletion pattern"
    and "Tok P1 = tok_equal"
    and "length (Toks P1) \<le> n"
  shows "let initR = fst (fst (parseExpr C (tl (Toks P1))));
             init = (if isNull initR \<or> resHasCodeCompletion initR then None
                     else Some (ExprHandle (getPtrOrNull initR)))
         in \<exists>P2. parsePatternTupleElement (Suc n) C False isLet' P =
                   Some ((makeParserSuccess,
                          Some (TuplePatternElt p init (getDefaultArgKind_of init))), P2) \<and>
                 Diags P2 =
                   Diags P1 @ [Diagnostic non_func_decl_pattern_init (isNonNull initR)]"
proof -
  from parseDefaultArgument_total[OF assms(1) assms(6) assms(5), of False 0 None]
  obtain s i P2 where d: "parseDefaultArgument n C False 0 None P1 = Some ((s, i), P2)"
    by fastforce
  from parseDefaultArgument_fields[OF d] have e: "P2 = (afterInit C False 0 P1)\<lparr>Toks := Toks P2\<rparr>" .
  have dg: "Diags P2 = Diags (afterInit C False 0 P1)" by (subst e) simp
  have dg2: "Diags P2 = Diags P1 @
           [Diagnostic non_func_decl_pattern_init (isNonNull (fst (fst (parseExpr C (tl (Toks P1))))))]"
    unfolding dg by (simp add: afterInit_def Let_def diagnose_def)
  have i: "i = (if isNull (fst (fst (parseExpr C (tl (Toks P1))))) \<or>
                              resHasCodeCompletion (fst (fst (parseExpr C (tl (Toks P1)))))
                           then None
                           else Some (ExprHandle (getPtrOrNull (fst (fst (parseExpr C (tl (Toks P1))))))))"
    using d by (auto simp: parseDefaultArgument_unfold[OF assms(5)] split: if_splits)
  show ?thesis
    using assms(2,3,4,5) d dg2 i by (simp add: Let_def)
qed

theorem parsePatternTupleElement_null_manager_init_witness:
  "collabProgress exampleCollab \<and>
   parsePattern 3 exampleCollab True
     (initialParser [tok_identifier ''x'', tok_equal, tok_other ''1'']) =
     Some (makeParserResult
             (NamedPattern \<lparr>getName = ''x'', isLet = True, declImplicit = False\<rparr> False),
           initialParser [tok_equal, tok_other ''1'']) \<and>
   Tok (initialParser [tok_equal, tok_other ''1'']) = tok_equal \<and>
   (\<exists>P2. parsePatternTupleElement 4 exampleCollab False True
            (initialParser [tok_identifier ''x'', tok_equal, tok_other ''1'']) =
          Some ((makeParserSuccess,
                 Some (TuplePatternElt
                         (NamedPattern \<lparr>getName = ''x'', isLet = True, declImplicit = False\<rparr> False)
                         (Some (ExprHandle (Some (OrdinaryExpr ''1'')))) DAK_Normal)), P2) \<and>
          Diags P2 = [Diagnostic non_func_decl_pattern_init True])"
proof -
  let ?P = "initialParser [tok_identifier ''x'', tok_equal, tok_other ''1'']"
  let ?P1 = "initialParser [tok_equal, tok_other ''1'']"
  let ?p = "NamedPattern \<lparr>getName = ''x'', isLet = True, declImplicit = False\<rparr> False"
  have h1: "collabProgress exampleCollab" by (rule exampleCollab_progress)
  have h2: "parsePattern 3 exampleCollab True ?P = Some (makeParserResult ?p, ?P1)"
    by code_simp
  have h3: "getPtrOrNull (makeParserResult ?p) = Some ?p" by (simp add: makeParserResult_def)
  have h4: "\<not> resHasCodeCompletion (makeParserResult ?p)"
    by (simp add: makeParserResult_def resHasCodeCompletion_def makeParserSuccess_def)
  have h5: "Tok ?P1 = tok_equal" by simp
  have h6: "length (Toks ?P1) \<le> 3" by (simp add: initialParser_def)
  from parsePatternTupleElement_null_manager_init[OF h1 h2 h3 h4 h5 h6]
  show ?thesis using h1 h2 h5
    by (simp add: Let_def initialParser_def exampleCollab_def exampleParseExpr_def
          isNull_def isNonNull_def resHasCodeCompletion_def makeParserResult_def
          makeParserSuccess_def getDefaultArgKind_of_def)
qed

section \<open>Initializer and ellipsis on one element\<close>

text \<open>
  C4. When the element callback of \<open>parsePatternTuple\<close> has parsed an element that
  carries an initializer and the next token is \<open>...\<close>, it consumes the ellipsis, emits
  the diagnostic \<open>tuple_ellipsis_init\<close>, returns the success status, appends the
  element and leaves the ellipsis location as it was. And a tuple that
  \<open>parsePatternTuple\<close> returns marked variadic has a last element without
  initializer: an element with both is never what makes a tuple variadic.
\<close>

theorem parsePatternTuple_ellipsis_with_initializer:
  "(parsePatternTupleElement n C defaults isLet' P = Some ((EltStatus, Some e), P1) \<and>
    \<not> hasCodeCompletion EltStatus \<and> getInit e \<noteq> None \<and> Tok P1 = tok_ellipsis \<longrightarrow>
      parsePatternTupleCallback (Suc n) C defaults isLet' acc P =
        Some (makeParserSuccess, (fst acc @ [e], snd acc),
              diagnose (Diagnostic tuple_ellipsis_init False) (consumeToken P1))) \<and>
   (parsePatternTuple m C defaults isLet' Q = Some (res, Q') \<and>
    getPtrOrNull res = Some (TuplePattern es True i) \<longrightarrow>
      es \<noteq> [] \<and> getInit (last es) = None)"
proof (intro conjI impI)
  assume "parsePatternTupleElement n C defaults isLet' P = Some ((EltStatus, Some e), P1) \<and>
    \<not> hasCodeCompletion EltStatus \<and> getInit e \<noteq> None \<and> Tok P1 = tok_ellipsis"
  then show "parsePatternTupleCallback (Suc n) C defaults isLet' acc P =
        Some (makeParserSuccess, (fst acc @ [e], snd acc),
              diagnose (Diagnostic tuple_ellipsis_init False) (consumeToken P1))"
    by (simp add: Let_def)
next
  assume a: "parsePatternTuple m C defaults isLet' Q = Some (res, Q') \<and>
    getPtrOrNull res = Some (TuplePattern es True i)"
  from parsePatternTuple_variadic[of m C defaults isLet' Q res Q' es i] a
  show "es \<noteq> []" and "getInit (last es) = None" by simp_all
qed

theorem parsePatternTuple_ellipsis_with_initializer_witness:
  "parsePatternTupleElement 4 exampleCollab True True
     (initialParser [tok_identifier ''x'', tok_colon, tok_identifier ''Int'', tok_equal,
                     tok_other ''1'', tok_ellipsis, tok_r_paren]) =
     Some ((makeParserSuccess,
            Some (TuplePatternElt
                    (TypedPattern
                       (NamedPattern \<lparr>getName = ''x'', isLet = True, declImplicit = False\<rparr> False)
                       (NamedTypeRepr ''Int'') False)
                    (Some (ExprHandle (Some (OrdinaryExpr ''1'')))) DAK_Normal)),
           \<lparr>Toks = [tok_ellipsis, tok_r_paren], Diags = [],
            InVarOrLetPattern = IVOLP_NotInVarOrLet, NextIndex = 1, ParsedContexts = [],
            CreatedContexts = [DefaultArgumentContext 0 0],
            DestroyedContexts = [DefaultArgumentContext 0 0]\<rparr>) \<and>
   parsePatternTupleCallback 5 exampleCollab True True ([], None)
     (initialParser [tok_identifier ''x'', tok_colon, tok_identifier ''Int'', tok_equal,
                     tok_other ''1'', tok_ellipsis, tok_r_paren]) =
     Some (makeParserSuccess,
           ([TuplePatternElt
               (TypedPattern
                  (NamedPattern \<lparr>getName = ''x'', isLet = True, declImplicit = False\<rparr> False)
                  (NamedTypeRepr ''Int'') False)
               (Some (ExprHandle (Some (OrdinaryExpr ''1'')))) DAK_Normal], None),
           \<lparr>Toks = [tok_r_paren], Diags = [Diagnostic tuple_ellipsis_init False],
            InVarOrLetPattern = IVOLP_NotInVarOrLet, NextIndex = 1, ParsedContexts = [],
            CreatedContexts = [DefaultArgumentContext 0 0],
            DestroyedContexts = [DefaultArgumentContext 0 0]\<rparr>) \<and>
   parsePatternTuple 9 exampleCollab True True
     (initialParser [tok_l_paren, tok_identifier ''x'', tok_colon, tok_identifier ''Int'',
                     tok_ellipsis, tok_r_paren]) =
     Some (makeParserResult
             (TuplePattern
                [TuplePatternElt
                   (TypedPattern
                      (NamedPattern \<lparr>getName = ''x'', isLet = True, declImplicit = False\<rparr> False)
                      (NamedTypeRepr ''Int'') False)
                   None DAK_None] True False),
           \<lparr>Toks = [], Diags = [],
            InVarOrLetPattern = IVOLP_NotInVarOrLet, NextIndex = 1, ParsedContexts = [],
            CreatedContexts = [], DestroyedContexts = []\<rparr>) \<and>
   getInit (last [TuplePatternElt
                   (TypedPattern
                      (NamedPattern \<lparr>getName = ''x'', isLet = True, declImplicit = False\<rparr> False)
                      (NamedTypeRepr ''Int'') False)
                   None DAK_None]) = None"
proof -
  let ?ts = "[tok_identifier ''x'', tok_colon, tok_identifier ''Int'', tok_equal,
              tok_other ''1'', tok_ellipsis, tok_r_paren]"
  let ?x = "TypedPattern
              (NamedPattern \<lparr>getName = ''x'', isLet = True, declImplicit = False\<rparr> False)
              (NamedTypeRepr ''Int'') False"
  let ?e = "TuplePatternElt ?x (Some (ExprHandle (Some (OrdinaryExpr ''1'')))) DAK_Normal"
  let ?P1 = "\<lparr>Toks = [tok_ellipsis, tok_r_paren], Diags = [],
            InVarOrLetPattern = IVOLP_NotInVarOrLet, NextIndex = 1, ParsedContexts = [],
            CreatedContexts = [DefaultArgumentContext 0 0],
            DestroyedContexts = [DefaultArgumentContext 0 0]\<rparr>"
  let ?es = "[TuplePatternElt ?x None DAK_None]"
  let ?Q' = "\<lparr>Toks = [], Diags = [],
            InVarOrLetPattern = IVOLP_NotInVarOrLet, NextIndex = 1, ParsedContexts = [],
            CreatedContexts = [], DestroyedContexts = []\<rparr>"
  have h1: "parsePatternTupleElement 4 exampleCollab True True (initialParser ?ts) =
              Some ((makeParserSuccess, Some ?e), ?P1)"
    by code_simp
  have h2: "\<not> hasCodeCompletion makeParserSuccess" by (simp add: makeParserSuccess_def)
  have h3: "getInit ?e \<noteq> None" by simp
  have h4: "Tok ?P1 = tok_ellipsis" by (simp add: Tok_def)
  have h5: "parsePatternTuple 9 exampleCollab True True
     (initialParser [tok_l_paren, tok_identifier ''x'', tok_colon, tok_identifier ''Int'',
                     tok_ellipsis, tok_r_paren]) =
     Some (makeParserResult (TuplePattern ?es True False), ?Q')"
    by code_simp
  have h6: "getPtrOrNull (makeParserResult (TuplePattern ?es True False)) =
            Some (TuplePattern ?es True False)"
    by (simp add: makeParserResult_def)
  from parsePatternTuple_ellipsis_with_initializer
         [of 4 exampleCollab True True "initialParser ?ts" makeParserSuccess ?e ?P1
             "([], None)" 9
             "initialParser [tok_l_paren, tok_identifier ''x'', tok_colon, tok_identifier ''Int'',
                     tok_ellipsis, tok_r_paren]"
             "makeParserResult (TuplePattern ?es True False)" ?Q' ?es False]
  show ?thesis using h1 h2 h3 h4 h5 h6
    by (simp add: diagnose_def consumeToken_def)
qed

section \<open>Nested qualifiers\<close>

text \<open>
  C8, the claim as stated fails: in \<open>var (let x)\<close> the nesting is diagnosed, and the
  binding \<open>x\<close> is a \<open>let\<close> binding: parsing goes on with the nested qualifier, not
  with the outer one.
\<close>

theorem parsePattern_nested_qualifier_inner:
  "parsePattern 13 exampleCollab True
     (initialParser [tok_kw_var, tok_l_paren, tok_kw_let, tok_identifier ''x'', tok_r_paren]) =
   Some (makeParserResult
           (VarPattern
              (ParenPattern
                 (VarPattern
                    (NamedPattern \<lparr>getName = ''x'', isLet = True, declImplicit = False\<rparr> False)
                    False)
                 False)
              False),
         \<lparr>Toks = [], Diags = [Diagnostic var_pattern_in_var False],
          InVarOrLetPattern = IVOLP_NotInVarOrLet, NextIndex = 0, ParsedContexts = [],
          CreatedContexts = [], DestroyedContexts = []\<rparr>)"
  by code_simp

text \<open>
  C8, amended. A \<open>var\<close> or \<open>let\<close> met inside a qualified pattern is diagnosed, once
  and before its subpattern is parsed, and the diagnosis is not fatal. The subpattern is
  parsed with the nested keyword as its qualifier: \<open>isLet\<close> holds exactly for \<open>let\<close>,
  so every binding of the subpattern outside a further qualifier has the nested
  keyword's mutability, not the outer one's. The result is a \<open>Var\<close> node around the
  subpattern when the subpattern parses and the null result when it does not, and the
  flag of the enclosing qualifier is restored. Apart from the diagnostic and the restored
  flag the run is the one made outside any qualifier, and with enough fuel the parse
  returns.
\<close>

theorem parsePatternVarOrLet_nested:
  assumes "Tok P = tok_kw_let \<or> Tok P = tok_kw_var"
    and "InVarOrLetPattern P \<noteq> IVOLP_NotInVarOrLet"
  shows "parsePatternVarOrLet (Suc n) C P =
           (case parsePattern n C (Tok P = tok_kw_let)
                   (P\<lparr>Toks := tl (Toks P),
                      Diags := Diags P @ [Diagnostic var_pattern_in_var False],
                      InVarOrLetPattern :=
                        (if Tok P = tok_kw_let then IVOLP_InLet else IVOLP_InVar)\<rparr>) of
              None \<Rightarrow> None
            | Some (sub, P4) \<Rightarrow>
                Some (case getPtrOrNull sub of
                        None \<Rightarrow> nullResult
                      | Some p \<Rightarrow> makeParserResult (VarPattern p False),
                      P4\<lparr>InVarOrLetPattern := InVarOrLetPattern P\<rparr>)) \<and>
         (\<forall>r P'. parsePatternVarOrLet n C P = Some (r, P') \<longrightarrow>
            r = nullResult \<or>
            (\<exists>q. r = makeParserResult (VarPattern q False) \<and> bindsAs (Tok P = tok_kw_let) q)) \<and>
         parsePatternVarOrLet n C P =
           map_option (\<lambda>r. (fst r, (snd r)\<lparr>InVarOrLetPattern := InVarOrLetPattern P\<rparr>))
             (parsePatternVarOrLet n C
                (P\<lparr>Diags := Diags P @ [Diagnostic var_pattern_in_var False],
                   InVarOrLetPattern := IVOLP_NotInVarOrLet\<rparr>)) \<and>
         (collabProgress C \<and> 7 * length (Toks P) + 2 \<le> n \<longrightarrow>
            parsePatternVarOrLet n C P \<noteq> None)"
proof (intro conjI)
  obtain ts ds f ni pc cc dc where
    P: "P = \<lparr>Toks = ts, Diags = ds, InVarOrLetPattern = f, NextIndex = ni,
             ParsedContexts = pc, CreatedContexts = cc, DestroyedContexts = dc\<rparr>"
    by (cases P) auto
  show "parsePatternVarOrLet (Suc n) C P =
           (case parsePattern n C (Tok P = tok_kw_let)
                   (P\<lparr>Toks := tl (Toks P),
                      Diags := Diags P @ [Diagnostic var_pattern_in_var False],
                      InVarOrLetPattern :=
                        (if Tok P = tok_kw_let then IVOLP_InLet else IVOLP_InVar)\<rparr>) of
              None \<Rightarrow> None
            | Some (sub, P4) \<Rightarrow>
                Some (case getPtrOrNull sub of
                        None \<Rightarrow> nullResult
                      | Some p \<Rightarrow> makeParserResult (VarPattern p False),
                      P4\<lparr>InVarOrLetPattern := InVarOrLetPattern P\<rparr>))"
    using assms unfolding P
    by (simp add: Tok_def Let_def consumeToken_def diagnose_def
          split: option.splits prod.splits list.splits)
  show "\<forall>r P'. parsePatternVarOrLet n C P = Some (r, P') \<longrightarrow>
            r = nullResult \<or>
            (\<exists>q. r = makeParserResult (VarPattern q False) \<and> bindsAs (Tok P = tok_kw_let) q)"
    using parsePatternVarOrLet_bindsAs[of n C P] by blast
  show "parsePatternVarOrLet n C P =
           map_option (\<lambda>r. (fst r, (snd r)\<lparr>InVarOrLetPattern := InVarOrLetPattern P\<rparr>))
             (parsePatternVarOrLet n C
                (P\<lparr>Diags := Diags P @ [Diagnostic var_pattern_in_var False],
                   InVarOrLetPattern := IVOLP_NotInVarOrLet\<rparr>))"
  proof (cases n)
    case 0
    then show ?thesis by simp
  next
    case (Suc m)
    show ?thesis using assms unfolding Suc P
      by (simp add: Tok_def Let_def consumeToken_def diagnose_def
            split: option.splits prod.splits list.splits)
  qed
  show "collabProgress C \<and> 7 * length (Toks P) + 2 \<le> n \<longrightarrow> parsePatternVarOrLet n C P \<noteq> None"
    using parsePatternVarOrLet_defined[of C P n] assms(1) by blast
qed

theorem parsePatternVarOrLet_nested_witness:
  "Tok ((initialParser [tok_kw_let, tok_identifier ''x''])\<lparr>InVarOrLetPattern := IVOLP_InVar\<rparr>)
     = tok_kw_let \<and>
   InVarOrLetPattern ((initialParser [tok_kw_let, tok_identifier ''x''])
                        \<lparr>InVarOrLetPattern := IVOLP_InVar\<rparr>) \<noteq> IVOLP_NotInVarOrLet \<and>
   collabProgress exampleCollab \<and>
   7 * length (Toks ((initialParser [tok_kw_let, tok_identifier ''x''])
                        \<lparr>InVarOrLetPattern := IVOLP_InVar\<rparr>)) + 2 \<le> 16 \<and>
   parsePatternVarOrLet 16 exampleCollab
     ((initialParser [tok_kw_let, tok_identifier ''x''])\<lparr>InVarOrLetPattern := IVOLP_InVar\<rparr>)
     \<noteq> None \<and>
   parsePatternVarOrLet 3 exampleCollab
     ((initialParser [tok_kw_let, tok_identifier ''x''])\<lparr>InVarOrLetPattern := IVOLP_InVar\<rparr>) =
   Some (makeParserResult
           (VarPattern
              (NamedPattern \<lparr>getName = ''x'', isLet = True, declImplicit = False\<rparr> False) False),
         \<lparr>Toks = [], Diags = [Diagnostic var_pattern_in_var False],
          InVarOrLetPattern = IVOLP_InVar, NextIndex = 0, ParsedContexts = [],
          CreatedContexts = [], DestroyedContexts = []\<rparr>) \<and>
   bindsAs True (NamedPattern \<lparr>getName = ''x'', isLet = True, declImplicit = False\<rparr> False)"
proof -
  let ?P = "(initialParser [tok_kw_let, tok_identifier ''x''])\<lparr>InVarOrLetPattern := IVOLP_InVar\<rparr>"
  have h1: "Tok ?P = tok_kw_let \<or> Tok ?P = tok_kw_var" by (simp add: Tok_def initialParser_def)
  have h2: "InVarOrLetPattern ?P \<noteq> IVOLP_NotInVarOrLet" by simp
  have h3: "collabProgress exampleCollab" by (rule exampleCollab_progress)
  have h4: "7 * length (Toks ?P) + 2 \<le> 16" by (simp add: initialParser_def)
  have ev: "parsePatternVarOrLet 3 exampleCollab ?P =
   Some (makeParserResult
           (VarPattern
              (NamedPattern \<lparr>getName = ''x'', isLet = True, declImplicit = False\<rparr> False) False),
         \<lparr>Toks = [], Diags = [Diagnostic var_pattern_in_var False],
          InVarOrLetPattern = IVOLP_InVar, NextIndex = 0, ParsedContexts = [],
          CreatedContexts = [], DestroyedContexts = []\<rparr>)"
    by code_simp
  have t: "Tok ?P = tok_kw_let" by (simp add: Tok_def initialParser_def)
  note th = parsePatternVarOrLet_nested[OF h1 h2, of 16 exampleCollab]
  from th have "collabProgress exampleCollab \<and> 7 * length (Toks ?P) + 2 \<le> 16 \<longrightarrow>
          parsePatternVarOrLet 16 exampleCollab ?P \<noteq> None"
    by blast
  with h3 h4 have nn: "parsePatternVarOrLet 16 exampleCollab ?P \<noteq> None" by blast
  have b: "bindsAs True (NamedPattern \<lparr>getName = ''x'', isLet = True, declImplicit = False\<rparr> False)"
    by simp
  show ?thesis by (intro conjI t h2 h3 h4 nn ev b)
qed

section \<open>Argument and body tuples of a selector-style signature\<close>

text \<open>
  C1, the claim as stated fails: after the first clause \<open>(x)\<close> the clause \<open>y(())\<close> is a
  valid selector clause, and its argument element is an empty tuple: the label \<open>y\<close> is
  no leaf of it, it occurs nowhere in the argument tuple.
\<close>

theorem parseSelectorFunctionArguments_label_missing:
  "firstBodyElt
     (ParenPattern (NamedPattern \<lparr>getName = ''x'', isLet = True, declImplicit = False\<rparr> False) False) =
     Some (TuplePatternElt
             (NamedPattern \<lparr>getName = ''x'', isLet = True, declImplicit = False\<rparr> False)
             None DAK_None) \<and>
   validClauses exampleCollab Map.empty
     (initialParser [tok_identifier ''y'', tok_l_paren, tok_l_paren, tok_r_paren, tok_r_paren,
                     tok_l_brace])
     [(tok_identifier ''y'', TuplePatternElt (TuplePattern [] False False) None DAK_None)]
     ((initialParser [tok_l_brace])\<lparr>NextIndex := 1\<rparr>) \<and>
   parseSelectorFunctionArguments 10 exampleCollab ([], [])
     (Some (ParenPattern
              (NamedPattern \<lparr>getName = ''x'', isLet = True, declImplicit = False\<rparr> False) False))
     (initialParser [tok_identifier ''y'', tok_l_paren, tok_l_paren, tok_r_paren, tok_r_paren,
                     tok_l_brace]) =
   Some (makeParserSuccess,
         ([Some (TuplePattern
                   [TuplePatternElt (AnyPattern True) None DAK_None,
                    TuplePatternElt (TuplePattern [] False True) None DAK_None]
                   False True)],
          [Some (TuplePattern
                   [TuplePatternElt
                      (NamedPattern \<lparr>getName = ''x'', isLet = True, declImplicit = False\<rparr> False)
                      None DAK_None,
                    TuplePatternElt (TuplePattern [] False False) None DAK_None]
                   False False)]),
         (initialParser [tok_l_brace])\<lparr>NextIndex := 1\<rparr>) \<and>
   leavesOf (TuplePattern [] False True) = []"
proof -
  let ?x = "NamedPattern \<lparr>getName = ''x'', isLet = True, declImplicit = False\<rparr> False"
  let ?P = "initialParser [tok_identifier ''y'', tok_l_paren, tok_l_paren, tok_r_paren, tok_r_paren,
                     tok_l_brace]"
  let ?P' = "(initialParser [tok_l_brace])\<lparr>NextIndex := 1\<rparr>"
  have h1: "firstBodyElt (ParenPattern ?x False) = Some (TuplePatternElt ?x None DAK_None)"
    by (simp add: firstBodyElt_def)
  have s: "isAtStartOfBindingName exampleCollab ?P"
    by (simp add: isAtStartOfBindingName_def exampleCollab_def)
  have al: "afterLabel Map.empty ?P =
              initialParser [tok_l_paren, tok_l_paren, tok_r_paren, tok_r_paren, tok_l_brace]"
    by (simp add: afterLabel_def consumeToken_def initialParser_def Tok_def)
  have pt: "parsePatternTuple 9 exampleCollab True True (afterLabel Map.empty ?P) =
              Some (makeParserResult (ParenPattern (TuplePattern [] False False) False), ?P')"
    unfolding al by code_simp
  have e: "\<not> isAtStartOfBindingName exampleCollab ?P'" "Tok ?P' \<noteq> tok_l_paren"
    by (simp_all add: isAtStartOfBindingName_def Tok_def initialParser_def)
  have "validClauses exampleCollab Map.empty ?P
          [(Tok ?P, TuplePatternElt (TuplePattern [] False False) None DAK_None)] ?P'"
  proof (rule validClauses.clause[OF s pt])
    show "getPtrOrNull (makeParserResult (ParenPattern (TuplePattern [] False False) False)) =
            Some (ParenPattern (TuplePattern [] False False) False)"
      by (simp add: makeParserResult_def)
    show "innerElt (ParenPattern (TuplePattern [] False False) False) =
            Some (TuplePatternElt (TuplePattern [] False False) None DAK_None)"
      by (simp add: innerElt_def)
    show "validClauses exampleCollab (namesAfter Map.empty (Tok ?P)) ?P' [] ?P'"
      by (rule validClauses.noClause[OF e])
  qed
  then have h2: "validClauses exampleCollab Map.empty ?P
                   [(tok_identifier ''y'', TuplePatternElt (TuplePattern [] False False) None DAK_None)] ?P'"
    by simp
  have ev: "parseSelectorFunctionArguments 10 exampleCollab ([], []) (Some (ParenPattern ?x False)) ?P =
   Some (makeParserSuccess,
         ([Some (TuplePattern
                   [TuplePatternElt (AnyPattern True) None DAK_None,
                    TuplePatternElt (TuplePattern [] False True) None DAK_None]
                   False True)],
          [Some (TuplePattern
                   [TuplePatternElt ?x None DAK_None,
                    TuplePatternElt (TuplePattern [] False False) None DAK_None]
                   False False)]), ?P')"
    by code_simp
  show ?thesis using h1 h2 ev by simp
qed

text \<open>
  C1, amended. For a first clause with a single element \<open>b0\<close> and an input that reads
  as the \<open>K\<close> selector clauses \<open>cl\<close>, \<open>parseSelectorFunctionArguments\<close> returns, for
  every large enough fuel, the success status and appends one argument tuple \<open>A\<close> and
  one body tuple \<open>B\<close>, each of \<open>K + 1\<close> elements in clause order. \<open>B\<close> is \<open>b0\<close>
  followed by the clauses' inner elements. Element \<open>0\<close> of \<open>A\<close> is the first body
  pattern rebuilt around an implicit wildcard, and for every clause \<open>i\<close> element
  \<open>i + 1\<close> of \<open>A\<close> is the clause's inner pattern rebuilt around the clause's label
  node, with the clause's initializer. The leaves of an argument element are copies of
  its label node (of the wildcard for element \<open>0\<close>), one for each leaf position of the
  body pattern: the label is the element's leaf whenever the body pattern has a binding,
  a wildcard or a typed node, and the element has no leaf when the body pattern is made
  of empty tuples only.
\<close>

theorem parseSelectorFunctionArguments_aligned:
  assumes "firstBodyElt First = Some b0" and "validClauses C Map.empty P cl P'"
  shows "\<exists>n0. \<forall>n\<ge>n0. \<exists>A B.
           parseSelectorFunctionArguments n C pats (Some First) P =
             Some (makeParserSuccess,
                   (fst pats @ [Some (TuplePattern A False True)],
                    snd pats @ [Some (TuplePattern B False False)]), P') \<and>
           length A = length cl + 1 \<and> length B = length cl + 1 \<and>
           B = b0 # map snd cl \<and>
           getPattern (A ! 0) = rewriteSpec (AnyPattern True) (getPattern b0) \<and>
           leavesOf (getPattern (A ! 0)) =
             replicate (leafPositions (getPattern b0)) (AnyPattern True) \<and>
           (\<forall>i<length cl.
              getPattern (A ! Suc i) =
                rewriteSpec (labelNode (fst (cl ! i))) (getPattern (snd (cl ! i))) \<and>
              leavesOf (getPattern (A ! Suc i)) =
                replicate (leafPositions (getPattern (snd (cl ! i)))) (labelNode (fst (cl ! i))) \<and>
              getInit (A ! Suc i) = getInit (snd (cl ! i)))"
proof -
  let ?a0 = "TuplePatternElt (rewriteSpec (AnyPattern True) (getPattern b0)) (getInit b0)
               (getDefaultArgKind b0)"
  let ?f = "\<lambda>c. argElt (labelNode (fst c)) (snd c)"
  from selectorLoop_valid[OF assms(2), of "[?a0]" "[b0]" makeParserSuccess]
  obtain n0 names' where
    loop: "\<forall>n\<ge>n0. selectorLoop n C ([?a0], [b0], Map.empty) makeParserSuccess P =
             Some (makeParserSuccess, ([?a0] @ map ?f cl, [b0] @ map snd cl, names'), P')"
    by blast
  have "\<exists>A B.
           parseSelectorFunctionArguments n C pats (Some First) P =
             Some (makeParserSuccess,
                   (fst pats @ [Some (TuplePattern A False True)],
                    snd pats @ [Some (TuplePattern B False False)]), P') \<and>
           length A = length cl + 1 \<and> length B = length cl + 1 \<and>
           B = b0 # map snd cl \<and>
           getPattern (A ! 0) = rewriteSpec (AnyPattern True) (getPattern b0) \<and>
           leavesOf (getPattern (A ! 0)) =
             replicate (leafPositions (getPattern b0)) (AnyPattern True) \<and>
           (\<forall>i<length cl.
              getPattern (A ! Suc i) =
                rewriteSpec (labelNode (fst (cl ! i))) (getPattern (snd (cl ! i))) \<and>
              leavesOf (getPattern (A ! Suc i)) =
                replicate (leafPositions (getPattern (snd (cl ! i)))) (labelNode (fst (cl ! i))) \<and>
              getInit (A ! Suc i) = getInit (snd (cl ! i)))"
    if n: "n0 \<le> n" for n
  proof -
    from loop n have
      "selectorLoop n C ([?a0], [b0], Map.empty) makeParserSuccess P =
             Some (makeParserSuccess, ([?a0] @ map ?f cl, [b0] @ map snd cl, names'), P')"
      by blast
    then have run: "parseSelectorFunctionArguments n C pats (Some First) P =
             Some (makeParserSuccess,
                   (fst pats @ [Some (TuplePattern (?a0 # map ?f cl) False True)],
                    snd pats @ [Some (TuplePattern (b0 # map snd cl) False False)]), P')"
      by (simp add: parseSelectorFunctionArguments_def firstSelectorElts_valid[OF assms(1)])
    have l0: "leavesOf (rewriteSpec (AnyPattern True) (getPattern b0)) =
                replicate (leafPositions (getPattern b0)) (AnyPattern True)"
      by (rule leavesOf_rewriteSpec_eq) simp
    have li: "leavesOf (rewriteSpec (labelNode (fst (cl ! i))) (getPattern (snd (cl ! i)))) =
                replicate (leafPositions (getPattern (snd (cl ! i)))) (labelNode (fst (cl ! i)))" for i
      by (rule leavesOf_rewriteSpec_eq) simp
    show ?thesis
      apply (rule exI[of _ "?a0 # map ?f cl"])
      apply (rule exI[of _ "b0 # map snd cl"])
      using run l0 li by (simp add: argElt_def)
  qed
  then show ?thesis by blast
qed

theorem parseSelectorFunctionArguments_aligned_witness:
  "firstBodyElt
     (ParenPattern (NamedPattern \<lparr>getName = ''x'', isLet = True, declImplicit = False\<rparr> False) False) =
     Some (TuplePatternElt
             (NamedPattern \<lparr>getName = ''x'', isLet = True, declImplicit = False\<rparr> False)
             None DAK_None) \<and>
   validClauses exampleCollab Map.empty
     (initialParser [tok_identifier ''y'', tok_l_paren, tok_identifier ''z'', tok_colon,
                     tok_identifier ''Int'', tok_r_paren, tok_l_brace])
     [(tok_identifier ''y'',
       TuplePatternElt
         (TypedPattern
            (NamedPattern \<lparr>getName = ''z'', isLet = True, declImplicit = False\<rparr> False)
            (NamedTypeRepr ''Int'') False)
         None DAK_None)]
     ((initialParser [tok_l_brace])\<lparr>NextIndex := 1\<rparr>) \<and>
   parseSelectorFunctionArguments 10 exampleCollab ([], [])
     (Some (ParenPattern
              (NamedPattern \<lparr>getName = ''x'', isLet = True, declImplicit = False\<rparr> False) False))
     (initialParser [tok_identifier ''y'', tok_l_paren, tok_identifier ''z'', tok_colon,
                     tok_identifier ''Int'', tok_r_paren, tok_l_brace]) =
   Some (makeParserSuccess,
         ([Some (TuplePattern
                   [TuplePatternElt (AnyPattern True) None DAK_None,
                    TuplePatternElt
                      (TypedPattern
                         (NamedPattern \<lparr>getName = ''y'', isLet = True, declImplicit = True\<rparr> True)
                         (NamedTypeRepr ''Int'') True)
                      None DAK_None]
                   False True)],
          [Some (TuplePattern
                   [TuplePatternElt
                      (NamedPattern \<lparr>getName = ''x'', isLet = True, declImplicit = False\<rparr> False)
                      None DAK_None,
                    TuplePatternElt
                      (TypedPattern
                         (NamedPattern \<lparr>getName = ''z'', isLet = True, declImplicit = False\<rparr> False)
                         (NamedTypeRepr ''Int'') False)
                      None DAK_None]
                   False False)]),
         (initialParser [tok_l_brace])\<lparr>NextIndex := 1\<rparr>) \<and>
   leavesOf (TypedPattern
               (NamedPattern \<lparr>getName = ''y'', isLet = True, declImplicit = True\<rparr> True)
               (NamedTypeRepr ''Int'') True) =
     [labelNode (tok_identifier ''y'')]"
proof -
  let ?x = "NamedPattern \<lparr>getName = ''x'', isLet = True, declImplicit = False\<rparr> False"
  let ?z = "TypedPattern
            (NamedPattern \<lparr>getName = ''z'', isLet = True, declImplicit = False\<rparr> False)
            (NamedTypeRepr ''Int'') False"
  let ?P = "initialParser [tok_identifier ''y'', tok_l_paren, tok_identifier ''z'', tok_colon,
                     tok_identifier ''Int'', tok_r_paren, tok_l_brace]"
  let ?P' = "(initialParser [tok_l_brace])\<lparr>NextIndex := 1\<rparr>"
  have h1: "firstBodyElt (ParenPattern ?x False) = Some (TuplePatternElt ?x None DAK_None)"
    by (simp add: firstBodyElt_def)
  have s: "isAtStartOfBindingName exampleCollab ?P"
    by (simp add: isAtStartOfBindingName_def exampleCollab_def)
  have al: "afterLabel Map.empty ?P =
              initialParser [tok_l_paren, tok_identifier ''z'', tok_colon,
                     tok_identifier ''Int'', tok_r_paren, tok_l_brace]"
    by (simp add: afterLabel_def consumeToken_def initialParser_def Tok_def)
  have pt: "parsePatternTuple 7 exampleCollab True True (afterLabel Map.empty ?P) =
              Some (makeParserResult (ParenPattern ?z False), ?P')"
    unfolding al by code_simp
  have e: "\<not> isAtStartOfBindingName exampleCollab ?P'" "Tok ?P' \<noteq> tok_l_paren"
    by (simp_all add: isAtStartOfBindingName_def Tok_def initialParser_def)
  have "validClauses exampleCollab Map.empty ?P [(Tok ?P, TuplePatternElt ?z None DAK_None)] ?P'"
  proof (rule validClauses.clause[OF s pt])
    show "getPtrOrNull (makeParserResult (ParenPattern ?z False)) = Some (ParenPattern ?z False)"
      by (simp add: makeParserResult_def)
    show "innerElt (ParenPattern ?z False) = Some (TuplePatternElt ?z None DAK_None)"
      by (simp add: innerElt_def)
    show "validClauses exampleCollab (namesAfter Map.empty (Tok ?P)) ?P' [] ?P'"
      by (rule validClauses.noClause[OF e])
  qed
  then have h2: "validClauses exampleCollab Map.empty ?P
                   [(tok_identifier ''y'', TuplePatternElt ?z None DAK_None)] ?P'"
    by simp
  have ev: "parseSelectorFunctionArguments 10 exampleCollab ([], []) (Some (ParenPattern ?x False)) ?P =
   Some (makeParserSuccess,
         ([Some (TuplePattern
                   [TuplePatternElt (AnyPattern True) None DAK_None,
                    TuplePatternElt
                      (TypedPattern
                         (NamedPattern \<lparr>getName = ''y'', isLet = True, declImplicit = True\<rparr> True)
                         (NamedTypeRepr ''Int'') True)
                      None DAK_None]
                   False True)],
          [Some (TuplePattern
                   [TuplePatternElt ?x None DAK_None, TuplePatternElt ?z None DAK_None]
                   False False)]), ?P')"
    by code_simp
  from parseSelectorFunctionArguments_aligned[OF h1 h2, of "([], [])"]
  show ?thesis using h1 h2 ev by (simp add: labelNode_def)
qed

section \<open>One tuple for each list\<close>

text \<open>
  C9. Called with a first pattern that is a \<open>Paren\<close> or a \<open>Tuple\<close> node (the two
  that \<open>parsePatternTuple\<close> produces; on any other the source is unreachable),
  \<open>parseSelectorFunctionArguments\<close> returns for every large enough fuel, and whenever
  it returns, with whatever status, it has appended exactly one tuple to the argument
  list and exactly one tuple to the body list, the two with the same non-zero number of
  elements: also when a selector clause failed or a stray \<open>(\<close> forced the error
  status.
\<close>

theorem parseSelectorFunctionArguments_appends_one:
  assumes "collabProgress C"
    and "(\<exists>sub i. First = ParenPattern sub i) \<or> (\<exists>es v i. First = TuplePattern es v i)"
  shows "(\<exists>n0. \<forall>n\<ge>n0. parseSelectorFunctionArguments n C pats (Some First) P \<noteq> None) \<and>
         (\<forall>n S pats' P'.
            parseSelectorFunctionArguments n C pats (Some First) P = Some (S, pats', P') \<longrightarrow>
            (\<exists>A B. fst pats' = fst pats @ [Some (TuplePattern A False True)] \<and>
                   snd pats' = snd pats @ [Some (TuplePattern B False False)] \<and>
                   length A = length B \<and> 0 < length A))"
  using parseSelectorFunctionArguments_defined[OF assms]
    parseSelectorFunctionArguments_result[OF assms(1)]
  by blast

theorem parseSelectorFunctionArguments_appends_one_witness:
  "collabProgress exampleCollab \<and>
   parseSelectorFunctionArguments 3 exampleCollab ([], []) (Some (TuplePattern [] False False))
     (initialParser [tok_identifier ''a'', tok_l_paren, tok_r_paren, tok_l_paren, tok_l_brace,
                     tok_r_brace]) =
   Some (makeParserError,
         ([Some (TuplePattern
                   [TuplePatternElt (TypedPattern (AnyPattern False) (TupleTypeRepr []) False)
                      None DAK_None] False True)],
          [Some (TuplePattern
                   [TuplePatternElt (TypedPattern (AnyPattern False) (TupleTypeRepr []) False)
                      None DAK_None] False False)]),
         \<lparr>Toks = [tok_r_brace],
          Diags = [Diagnostic func_selector_with_not_one_argument False,
                   Diagnostic func_selector_with_not_one_argument False,
                   Diagnostic func_selector_with_curry False],
          InVarOrLetPattern = IVOLP_NotInVarOrLet, NextIndex = 0, ParsedContexts = [],
          CreatedContexts = [], DestroyedContexts = []\<rparr>)"
proof -
  have h1: "collabProgress exampleCollab" by (rule exampleCollab_progress)
  have h2: "(\<exists>sub i. TuplePattern [] False False = ParenPattern sub i) \<or>
            (\<exists>es v i. TuplePattern [] False False = TuplePattern es v i)"
    by blast
  have ev: "parseSelectorFunctionArguments 3 exampleCollab ([], []) (Some (TuplePattern [] False False))
     (initialParser [tok_identifier ''a'', tok_l_paren, tok_r_paren, tok_l_paren, tok_l_brace,
                     tok_r_brace]) =
   Some (makeParserError,
         ([Some (TuplePattern
                   [TuplePatternElt (TypedPattern (AnyPattern False) (TupleTypeRepr []) False)
                      None DAK_None] False True)],
          [Some (TuplePattern
                   [TuplePatternElt (TypedPattern (AnyPattern False) (TupleTypeRepr []) False)
                      None DAK_None] False False)]),
         \<lparr>Toks = [tok_r_brace],
          Diags = [Diagnostic func_selector_with_not_one_argument False,
                   Diagnostic func_selector_with_not_one_argument False,
                   Diagnostic func_selector_with_curry False],
          InVarOrLetPattern = IVOLP_NotInVarOrLet, NextIndex = 0, ParsedContexts = [],
          CreatedContexts = [], DestroyedContexts = []\<rparr>)"
    by code_simp
  from parseSelectorFunctionArguments_appends_one[OF h1 h2]
  show ?thesis using h1 ev by simp
qed

section \<open>A first clause that fails to parse\<close>

text \<open>
  C7, the claim as stated fails. On \<open>(x, =\<close> the first clause fails to parse, and
  what \<open>parseFunctionArguments\<close> appends to both lists is the partial clause \<open>(x)\<close>
  that \<open>parsePatternTuple\<close> returned with the error status, not a synthesized empty
  tuple: the first clause's result is not null and the placeholder is not made. And
  were the first clause's result null, \<open>parseFunctionArgumentsFrom\<close> would append the
  placeholder and then the null pattern itself.
\<close>

theorem parseFunctionArguments_no_placeholder:
  "parseFunctionArguments 8 exampleCollab ([], []) False
     (initialParser [tok_l_paren, tok_identifier ''x'', tok_comma, tok_equal]) =
   Some (makeParserError,
         ([Some (ParenPattern
                   (NamedPattern \<lparr>getName = ''x'', isLet = True, declImplicit = False\<rparr> False)
                   False)],
          [Some (ParenPattern
                   (NamedPattern \<lparr>getName = ''x'', isLet = True, declImplicit = False\<rparr> False)
                   False)]),
         False,
         \<lparr>Toks = [tok_equal],
          Diags = [Diagnostic expected_pattern False,
                   Diagnostic expected_rparen_tuple_pattern_list False],
          InVarOrLetPattern = IVOLP_NotInVarOrLet, NextIndex = 2, ParsedContexts = [],
          CreatedContexts = [], DestroyedContexts = []\<rparr>) \<and>
   parseFunctionArgumentsFrom 1 exampleCollab nullResult ([], []) False
     (initialParser [tok_l_brace]) =
   Some (makeParserError,
         ([Some (TuplePattern [] False False), None],
          [Some (TuplePattern [] False False), None]),
         False, initialParser [tok_l_brace])"
  by code_simp

text \<open>
  C7, amended. For every input at a \<open>(\<close>, the first clause's result is never null,
  whether the clause parsed or failed, so the placeholder branch is not taken;
  \<open>parseFunctionArguments\<close> returns for every large enough fuel, and whenever it
  returns it has appended the same non-zero number of patterns to both lists, every one
  of them non-null, in the selector-style branch as in the curried one.
\<close>

theorem parseFunctionArguments_nonnull:
  assumes "collabProgress C" and "Tok P = tok_l_paren"
  shows "(\<exists>n0. \<forall>n\<ge>n0. parseFunctionArguments n C pats H P \<noteq> None) \<and>
         (\<forall>n r P1. parsePatternTuple n C True True P = Some (r, P1) \<longrightarrow> \<not> isNull r) \<and>
         (\<forall>n S pats' H' P'.
            parseFunctionArguments n C pats H P = Some (S, pats', H', P') \<longrightarrow>
            (\<exists>as bs. as \<noteq> [] \<and> length as = length bs \<and>
               fst pats' = fst pats @ map Some as \<and> snd pats' = snd pats @ map Some bs))"
proof (intro conjI allI impI)
  have "parseFunctionArguments n C pats H P \<noteq> None" if b: "7 * length (Toks P) + 2 \<le> n" for n
  proof -
    from b have "7 * length (Toks P) + 1 \<le> n" by simp
    from parsePatternTuple_defined[OF assms(1) this assms(2), of True True]
    obtain r P1 where pt: "parsePatternTuple n C True True P = Some (r, P1)" by fastforce
    from parsePatternTuple_result[OF pt] obtain p where p: "getPtrOrNull r = Some p"
      and sh: "(\<exists>sub i. p = ParenPattern sub i) \<or> (\<exists>es v i. p = TuplePattern es v i)" by blast
    from parsePatternTuple_len_strict[OF assms(1) pt] b have "7 * length (Toks P1) + 2 \<le> n" by simp
    from parseFunctionArgumentsFrom_defined[OF assms(1) p sh this] pt show ?thesis
      by (simp add: parseFunctionArguments_def)
  qed
  then show "\<exists>n0. \<forall>n\<ge>n0. parseFunctionArguments n C pats H P \<noteq> None" by blast
next
  fix n r P1 assume "parsePatternTuple n C True True P = Some (r, P1)"
  from parsePatternTuple_result[OF this] show "\<not> isNull r" by (auto simp: isNull_def)
next
  fix n S pats' H' P'
  assume a: "parseFunctionArguments n C pats H P = Some (S, pats', H', P')"
  then have "parsePatternTuple n C True True P \<noteq> None"
    by (auto simp: parseFunctionArguments_def split: option.splits)
  then obtain r P1 where pt: "parsePatternTuple n C True True P = Some (r, P1)" by fastforce
  from parsePatternTuple_result[OF pt] obtain p where p: "getPtrOrNull r = Some p" by blast
  from a pt have "parseFunctionArgumentsFrom n C r pats H P1 = Some (S, pats', H', P')"
    by (simp add: parseFunctionArguments_def)
  from parseFunctionArgumentsFrom_result[OF assms(1) p this]
  show "\<exists>as bs. as \<noteq> [] \<and> length as = length bs \<and>
               fst pats' = fst pats @ map Some as \<and> snd pats' = snd pats @ map Some bs" .
qed

theorem parseFunctionArguments_nonnull_witness:
  "collabProgress exampleCollab \<and>
   Tok (initialParser [tok_l_paren, tok_identifier ''x'', tok_comma, tok_equal]) = tok_l_paren \<and>
   parsePatternTuple 8 exampleCollab True True
     (initialParser [tok_l_paren, tok_identifier ''x'', tok_comma, tok_equal]) =
   Some (makeParserErrorResult
           (ParenPattern
              (NamedPattern \<lparr>getName = ''x'', isLet = True, declImplicit = False\<rparr> False)
              False),
         \<lparr>Toks = [tok_equal],
          Diags = [Diagnostic expected_pattern False,
                   Diagnostic expected_rparen_tuple_pattern_list False],
          InVarOrLetPattern = IVOLP_NotInVarOrLet, NextIndex = 2, ParsedContexts = [],
          CreatedContexts = [], DestroyedContexts = []\<rparr>) \<and>
   \<not> isNull (makeParserErrorResult
           (ParenPattern
              (NamedPattern \<lparr>getName = ''x'', isLet = True, declImplicit = False\<rparr> False)
              False)) \<and>
   parseFunctionArguments 8 exampleCollab ([], []) False
     (initialParser [tok_l_paren, tok_identifier ''x'', tok_comma, tok_equal]) =
   Some (makeParserError,
         ([] @ map Some
            [ParenPattern
               (NamedPattern \<lparr>getName = ''x'', isLet = True, declImplicit = False\<rparr> False)
               False],
          [] @ map Some
            [ParenPattern
               (NamedPattern \<lparr>getName = ''x'', isLet = True, declImplicit = False\<rparr> False)
               False]),
         False,
         \<lparr>Toks = [tok_equal],
          Diags = [Diagnostic expected_pattern False,
                   Diagnostic expected_rparen_tuple_pattern_list False],
          InVarOrLetPattern = IVOLP_NotInVarOrLet, NextIndex = 2, ParsedContexts = [],
          CreatedContexts = [], DestroyedContexts = []\<rparr>)"
proof -
  let ?P = "initialParser [tok_l_paren, tok_identifier ''x'', tok_comma, tok_equal]"
  let ?x = "ParenPattern
              (NamedPattern \<lparr>getName = ''x'', isLet = True, declImplicit = False\<rparr> False) False"
  let ?P' = "\<lparr>Toks = [tok_equal],
          Diags = [Diagnostic expected_pattern False,
                   Diagnostic expected_rparen_tuple_pattern_list False],
          InVarOrLetPattern = IVOLP_NotInVarOrLet, NextIndex = 2, ParsedContexts = [],
          CreatedContexts = [], DestroyedContexts = []\<rparr>"
  have h1: "collabProgress exampleCollab" by (rule exampleCollab_progress)
  have h2: "Tok ?P = tok_l_paren" by simp
  have e1: "parsePatternTuple 8 exampleCollab True True ?P = Some (makeParserErrorResult ?x, ?P')"
    by code_simp
  have e2: "parseFunctionArguments 8 exampleCollab ([], []) False ?P =
              Some (makeParserError, ([Some ?x], [Some ?x]), False, ?P')"
    by code_simp
  note th = parseFunctionArguments_nonnull[OF h1 h2, of "([], [])" False]
  from th e1 have nn: "\<not> isNull (makeParserErrorResult ?x)" by blast
  show ?thesis using h1 h2 e1 e2 nn by simp
qed

section \<open>Default-argument indices\<close>

text \<open>
  C5, the claim as stated fails: the counter belongs to the manager of the whole
  signature and is not reset at a clause. In the selector-style signature
  \<open>(x) y(z = 1)\<close> the clause \<open>(z = 1)\<close> is parsed with the manager the first clause
  \<open>(x)\<close> has left at \<open>1\<close>: its only element, at position \<open>0\<close> of the clause, is given
  the index \<open>1\<close>.
\<close>

theorem parsePatternTuple_index_not_clause_position:
  "parseFunctionArguments 8 exampleCollab ([], []) False
     (initialParser [tok_l_paren, tok_identifier ''x'', tok_r_paren, tok_identifier ''y'',
                     tok_l_paren, tok_identifier ''z'', tok_equal, tok_other ''1'', tok_r_paren,
                     tok_l_brace]) =
   Some (makeParserSuccess,
         ([Some (TuplePattern
                   [TuplePatternElt (AnyPattern True) None DAK_None,
                    TuplePatternElt
                      (NamedPattern \<lparr>getName = ''y'', isLet = True, declImplicit = True\<rparr> True)
                      (Some (ExprHandle (Some (OrdinaryExpr ''1'')))) DAK_Normal]
                   False True)],
          [Some (TuplePattern
                   [TuplePatternElt
                      (NamedPattern \<lparr>getName = ''x'', isLet = True, declImplicit = False\<rparr> False)
                      None DAK_None,
                    TuplePatternElt
                      (NamedPattern \<lparr>getName = ''z'', isLet = True, declImplicit = False\<rparr> False)
                      (Some (ExprHandle (Some (OrdinaryExpr ''1'')))) DAK_Normal]
                   False False)]),
         True,
         \<lparr>Toks = [tok_l_brace], Diags = [], InVarOrLetPattern = IVOLP_NotInVarOrLet,
          NextIndex = 2, ParsedContexts = [],
          CreatedContexts = [DefaultArgumentContext 0 1],
          DestroyedContexts = [DefaultArgumentContext 0 1]\<rparr>) \<and>
   parsePatternTuple 7 exampleCollab True True
     ((initialParser [tok_l_paren, tok_identifier ''z'', tok_equal, tok_other ''1'', tok_r_paren,
                      tok_l_brace])\<lparr>NextIndex := 1\<rparr>) =
   Some (makeParserResult
           (TuplePattern
              [TuplePatternElt
                 (NamedPattern \<lparr>getName = ''z'', isLet = True, declImplicit = False\<rparr> False)
                 (Some (ExprHandle (Some (OrdinaryExpr ''1'')))) DAK_Normal]
              False False),
         \<lparr>Toks = [tok_l_brace], Diags = [], InVarOrLetPattern = IVOLP_NotInVarOrLet,
          NextIndex = 2, ParsedContexts = [],
          CreatedContexts = [DefaultArgumentContext 0 1],
          DestroyedContexts = [DefaultArgumentContext 0 1]\<rparr>) \<and>
   ctxArgIndex (DefaultArgumentContext 0 1) \<noteq> 0"
proof -
  have a: "parseFunctionArguments 8 exampleCollab ([], []) False
     (initialParser [tok_l_paren, tok_identifier ''x'', tok_r_paren, tok_identifier ''y'',
                     tok_l_paren, tok_identifier ''z'', tok_equal, tok_other ''1'', tok_r_paren,
                     tok_l_brace]) =
   Some (makeParserSuccess,
         ([Some (TuplePattern
                   [TuplePatternElt (AnyPattern True) None DAK_None,
                    TuplePatternElt
                      (NamedPattern \<lparr>getName = ''y'', isLet = True, declImplicit = True\<rparr> True)
                      (Some (ExprHandle (Some (OrdinaryExpr ''1'')))) DAK_Normal]
                   False True)],
          [Some (TuplePattern
                   [TuplePatternElt
                      (NamedPattern \<lparr>getName = ''x'', isLet = True, declImplicit = False\<rparr> False)
                      None DAK_None,
                    TuplePatternElt
                      (NamedPattern \<lparr>getName = ''z'', isLet = True, declImplicit = False\<rparr> False)
                      (Some (ExprHandle (Some (OrdinaryExpr ''1'')))) DAK_Normal]
                   False False)]),
         True,
         \<lparr>Toks = [tok_l_brace], Diags = [], InVarOrLetPattern = IVOLP_NotInVarOrLet,
          NextIndex = 2, ParsedContexts = [],
          CreatedContexts = [DefaultArgumentContext 0 1],
          DestroyedContexts = [DefaultArgumentContext 0 1]\<rparr>)"
    by code_simp
  have b: "parsePatternTuple 7 exampleCollab True True
     ((initialParser [tok_l_paren, tok_identifier ''z'', tok_equal, tok_other ''1'', tok_r_paren,
                      tok_l_brace])\<lparr>NextIndex := 1\<rparr>) =
   Some (makeParserResult
           (TuplePattern
              [TuplePatternElt
                 (NamedPattern \<lparr>getName = ''z'', isLet = True, declImplicit = False\<rparr> False)
                 (Some (ExprHandle (Some (OrdinaryExpr ''1'')))) DAK_Normal]
              False False),
         \<lparr>Toks = [tok_l_brace], Diags = [], InVarOrLetPattern = IVOLP_NotInVarOrLet,
          NextIndex = 2, ParsedContexts = [],
          CreatedContexts = [DefaultArgumentContext 0 1],
          DestroyedContexts = [DefaultArgumentContext 0 1]\<rparr>)"
    by code_simp
  show ?thesis using a b by simp
qed

text \<open>
  C5, amended. With a manager, \<open>parsePatternTupleElement\<close> takes the value of the
  manager's counter as the element's index and adds one to the counter (a 32-bit
  unsigned number) before the pattern is parsed: whenever it returns, with or without an
  element, the counter is one more than at entry, and the context of a parsed
  initializer is the last one created and carries the counter's value at entry. So for
  a clause that \<open>parsePatternTuple\<close> parses without error into the elements \<open>es\<close>,
  starting with the counter at \<open>k\<close>: the counter ends at \<open>k + length es\<close>, and the
  contexts created during the clause split into one group for each element, in order,
  where the group of every element \<open>i\<close> that has an initializer ends with the
  element's own context, of index \<open>k + i\<close>. The index of an element is its position in
  the clause when the counter is \<open>0\<close> at the start of the clause, as it is for the first
  clause of a signature. Given enough fuel, the clause parse returns.
\<close>

theorem parsePatternTuple_default_index:
  "(parsePatternTupleElement n C True l P = Some (r, P') \<longrightarrow>
      NextIndex P' = NextIndex P + 1 \<and>
      (\<forall>e. snd r = Some e \<longrightarrow> getInit e \<noteq> None \<longrightarrow>
         CreatedContexts P' \<noteq> [] \<and> ctxArgIndex (last (CreatedContexts P')) = NextIndex P)) \<and>
   (parsePatternTuple n C True l P = Some (res, P') \<longrightarrow> \<not> isParseError res \<longrightarrow>
      (\<exists>es v ctxss.
         getPtrOrNull res = Some (createSimple es v) \<and>
         NextIndex P' = NextIndex P + of_nat (length es) \<and>
         CreatedContexts P' = CreatedContexts P @ concat ctxss \<and>
         eltContexts (NextIndex P) es ctxss)) \<and>
   (collabProgress C \<longrightarrow> Tok P = tok_l_paren \<longrightarrow> 7 * length (Toks P) + 1 \<le> n \<longrightarrow>
      parsePatternTuple n C True l P \<noteq> None)"
proof (intro conjI impI allI)
  assume a: "parsePatternTupleElement n C True l P = Some (r, P')"
  obtain s elt where r: "r = (s, elt)" by (cases r) auto
  from parsePatternTupleElement_index[OF a[unfolded r]]
  show "NextIndex P' = NextIndex P + 1" by simp
  fix e
  assume "snd r = Some e" "getInit e \<noteq> None"
  with parsePatternTupleElement_index[OF a[unfolded r]] r
  obtain cs where "CreatedContexts P' = CreatedContexts P @ cs" "cs \<noteq> []"
    "ctxArgIndex (last cs) = NextIndex P"
    by auto
  then show "CreatedContexts P' \<noteq> []" "ctxArgIndex (last (CreatedContexts P')) = NextIndex P"
    by simp_all
next
  assume "parsePatternTuple n C True l P = Some (res, P')" "\<not> isParseError res"
  then show "\<exists>es v ctxss.
         getPtrOrNull res = Some (createSimple es v) \<and>
         NextIndex P' = NextIndex P + of_nat (length es) \<and>
         CreatedContexts P' = CreatedContexts P @ concat ctxss \<and>
         eltContexts (NextIndex P) es ctxss"
    by (rule parsePatternTuple_index)
next
  assume "collabProgress C" "Tok P = tok_l_paren" "7 * length (Toks P) + 1 \<le> n"
  from parsePatternTuple_defined[OF this(1,3,2)]
  show "parsePatternTuple n C True l P \<noteq> None" .
qed

theorem parsePatternTuple_default_index_witness:
  "parsePatternTupleElement 3 exampleCollab True True
     ((initialParser [tok_identifier ''b'', tok_colon, tok_identifier ''Int'', tok_equal,
                      tok_other ''1'', tok_comma, tok_identifier ''c'', tok_colon,
                      tok_identifier ''Int'', tok_r_paren])\<lparr>NextIndex := 1\<rparr>) =
   Some ((makeParserSuccess,
          Some (TuplePatternElt
                  (TypedPattern
                     (NamedPattern \<lparr>getName = ''b'', isLet = True, declImplicit = False\<rparr> False)
                     (NamedTypeRepr ''Int'') False)
                  (Some (ExprHandle (Some (OrdinaryExpr ''1'')))) DAK_Normal)),
         \<lparr>Toks = [tok_comma, tok_identifier ''c'', tok_colon, tok_identifier ''Int'',
                  tok_r_paren],
          Diags = [], InVarOrLetPattern = IVOLP_NotInVarOrLet, NextIndex = 2,
          ParsedContexts = [], CreatedContexts = [DefaultArgumentContext 0 1],
          DestroyedContexts = [DefaultArgumentContext 0 1]\<rparr>) \<and>
   ctxArgIndex (last [DefaultArgumentContext 0 1]) =
     NextIndex ((initialParser [tok_identifier ''b'', tok_colon, tok_identifier ''Int'', tok_equal,
                      tok_other ''1'', tok_comma, tok_identifier ''c'', tok_colon,
                      tok_identifier ''Int'', tok_r_paren])\<lparr>NextIndex := 1\<rparr>) \<and>
   parsePatternTuple 9 exampleCollab True True
     (initialParser [tok_l_paren, tok_identifier ''a'', tok_colon, tok_identifier ''Int'',
                     tok_comma, tok_identifier ''b'', tok_colon, tok_identifier ''Int'',
                     tok_equal, tok_other ''1'', tok_comma, tok_identifier ''c'', tok_colon,
                     tok_identifier ''Int'', tok_r_paren]) =
   Some (makeParserResult
           (TuplePattern
              [TuplePatternElt
                 (TypedPattern
                    (NamedPattern \<lparr>getName = ''a'', isLet = True, declImplicit = False\<rparr> False)
                    (NamedTypeRepr ''Int'') False)
                 None DAK_None,
               TuplePatternElt
                 (TypedPattern
                    (NamedPattern \<lparr>getName = ''b'', isLet = True, declImplicit = False\<rparr> False)
                    (NamedTypeRepr ''Int'') False)
                 (Some (ExprHandle (Some (OrdinaryExpr ''1'')))) DAK_Normal,
               TuplePatternElt
                 (TypedPattern
                    (NamedPattern \<lparr>getName = ''c'', isLet = True, declImplicit = False\<rparr> False)
                    (NamedTypeRepr ''Int'') False)
                 None DAK_None]
              False False),
         \<lparr>Toks = [], Diags = [], InVarOrLetPattern = IVOLP_NotInVarOrLet, NextIndex = 3,
          ParsedContexts = [], CreatedContexts = [DefaultArgumentContext 0 1],
          DestroyedContexts = [DefaultArgumentContext 0 1]\<rparr>) \<and>
   (\<exists>es v ctxss.
      Some (TuplePattern
              [TuplePatternElt
                 (TypedPattern
                    (NamedPattern \<lparr>getName = ''a'', isLet = True, declImplicit = False\<rparr> False)
                    (NamedTypeRepr ''Int'') False)
                 None DAK_None,
               TuplePatternElt
                 (TypedPattern
                    (NamedPattern \<lparr>getName = ''b'', isLet = True, declImplicit = False\<rparr> False)
                    (NamedTypeRepr ''Int'') False)
                 (Some (ExprHandle (Some (OrdinaryExpr ''1'')))) DAK_Normal,
               TuplePatternElt
                 (TypedPattern
                    (NamedPattern \<lparr>getName = ''c'', isLet = True, declImplicit = False\<rparr> False)
                    (NamedTypeRepr ''Int'') False)
                 None DAK_None]
              False False) = Some (createSimple es v) \<and>
      (3 :: 32 word) = 0 + of_nat (length es) \<and>
      [DefaultArgumentContext 0 1] = [] @ concat ctxss \<and>
      eltContexts 0 es ctxss) \<and>
   collabProgress exampleCollab \<and>
   parsePatternTuple 106 exampleCollab True True
     (initialParser [tok_l_paren, tok_identifier ''a'', tok_colon, tok_identifier ''Int'',
                     tok_comma, tok_identifier ''b'', tok_colon, tok_identifier ''Int'',
                     tok_equal, tok_other ''1'', tok_comma, tok_identifier ''c'', tok_colon,
                     tok_identifier ''Int'', tok_r_paren]) \<noteq> None"
proof -
  let ?Pe = "(initialParser [tok_identifier ''b'', tok_colon, tok_identifier ''Int'', tok_equal,
                      tok_other ''1'', tok_comma, tok_identifier ''c'', tok_colon,
                      tok_identifier ''Int'', tok_r_paren])\<lparr>NextIndex := 1\<rparr>"
  let ?Pe' = "\<lparr>Toks = [tok_comma, tok_identifier ''c'', tok_colon, tok_identifier ''Int'',
                  tok_r_paren],
          Diags = [], InVarOrLetPattern = IVOLP_NotInVarOrLet, NextIndex = 2,
          ParsedContexts = [], CreatedContexts = [DefaultArgumentContext 0 1],
          DestroyedContexts = [DefaultArgumentContext 0 1]\<rparr>"
  let ?a = "TuplePatternElt
                 (TypedPattern
                    (NamedPattern \<lparr>getName = ''a'', isLet = True, declImplicit = False\<rparr> False)
                    (NamedTypeRepr ''Int'') False)
                 None DAK_None"
  let ?b = "TuplePatternElt
                 (TypedPattern
                    (NamedPattern \<lparr>getName = ''b'', isLet = True, declImplicit = False\<rparr> False)
                    (NamedTypeRepr ''Int'') False)
                 (Some (ExprHandle (Some (OrdinaryExpr ''1'')))) DAK_Normal"
  let ?c = "TuplePatternElt
                 (TypedPattern
                    (NamedPattern \<lparr>getName = ''c'', isLet = True, declImplicit = False\<rparr> False)
                    (NamedTypeRepr ''Int'') False)
                 None DAK_None"
  let ?P = "initialParser [tok_l_paren, tok_identifier ''a'', tok_colon, tok_identifier ''Int'',
                     tok_comma, tok_identifier ''b'', tok_colon, tok_identifier ''Int'',
                     tok_equal, tok_other ''1'', tok_comma, tok_identifier ''c'', tok_colon,
                     tok_identifier ''Int'', tok_r_paren]"
  let ?P' = "\<lparr>Toks = [], Diags = [], InVarOrLetPattern = IVOLP_NotInVarOrLet, NextIndex = 3,
          ParsedContexts = [], CreatedContexts = [DefaultArgumentContext 0 1],
          DestroyedContexts = [DefaultArgumentContext 0 1]\<rparr>"
  have e: "parsePatternTupleElement 3 exampleCollab True True ?Pe =
             Some ((makeParserSuccess, Some ?b), ?Pe')"
    by code_simp
  have t: "parsePatternTuple 9 exampleCollab True True ?P =
             Some (makeParserResult (TuplePattern [?a, ?b, ?c] False False), ?P')"
    by code_simp
  have ok: "\<not> isParseError (makeParserResult (TuplePattern [?a, ?b, ?c] False False))"
    by (simp add: isParseError_def makeParserResult_def makeParserSuccess_def)
  from parsePatternTuple_default_index[where n = 3 and C = exampleCollab and l = True
         and P = ?Pe and P' = ?Pe' and r = "(makeParserSuccess, Some ?b)",
         THEN conjunct1, rule_format, OF e]
  have c1: "ctxArgIndex (last [DefaultArgumentContext 0 1]) = NextIndex ?Pe"
    by simp
  have h1: "collabProgress exampleCollab" by (rule exampleCollab_progress)
  have h2: "Tok ?P = tok_l_paren" by simp
  have h3: "7 * length (Toks ?P) + 1 \<le> 106" by (simp add: initialParser_def)
  note T = parsePatternTuple_default_index[where n = 9 and C = exampleCollab and l = True
             and P = ?P and P' = ?P'
             and res = "makeParserResult (TuplePattern [?a, ?b, ?c] False False)"]
  from T[THEN conjunct2, THEN conjunct1, rule_format, OF t ok]
  have c2: "\<exists>es v ctxss.
      Some (TuplePattern [?a, ?b, ?c] False False) = Some (createSimple es v) \<and>
      (3 :: 32 word) = 0 + of_nat (length es) \<and>
      [DefaultArgumentContext 0 1] = [] @ concat ctxss \<and>
      eltContexts 0 es ctxss"
    by (simp add: makeParserResult_def initialParser_def)
  from parsePatternTuple_default_index[where n = 106 and C = exampleCollab and l = True
         and P = ?P, THEN conjunct2, THEN conjunct2, rule_format, OF h1 h2 h3]
  have c3: "parsePatternTuple 106 exampleCollab True True ?P \<noteq> None" .
  show ?thesis
    apply (intro conjI)
    subgoal by (rule e)
    subgoal by (rule c1)
    subgoal by (rule t)
    subgoal by (rule c2)
    subgoal by (rule h1)
    subgoal by (rule c3)
    done
qed

section \<open>The node a tuple input gives\<close>

text \<open>
  C3, the claim as stated fails. The input \<open>(x)\<close> is a valid tuple pattern with one
  element, and \<open>parsePatternTuple\<close> returns a \<open>Paren\<close> node around \<open>x\<close>, not a
  \<open>Tuple\<close> node with one element. And the input \<open>(x: Int = 1...)\<close> ends with an
  ellipsis in final position on a \<open>Typed\<close> element, and the tuple returned is not
  variadic, because the element has an initializer.
\<close>

theorem parsePatternTuple_single_is_paren:
  "parsePatternTuple 7 exampleCollab False True
     (initialParser [tok_l_paren, tok_identifier ''x'', tok_r_paren]) =
   Some (makeParserResult
           (ParenPattern
              (NamedPattern \<lparr>getName = ''x'', isLet = True, declImplicit = False\<rparr> False)
              False),
         initialParser []) \<and>
   parsePatternTuple 7 exampleCollab True True
     (initialParser [tok_l_paren, tok_identifier ''x'', tok_colon, tok_identifier ''Int'',
                     tok_equal, tok_other ''1'', tok_ellipsis, tok_r_paren]) =
   Some (makeParserResult
           (TuplePattern
              [TuplePatternElt
                 (TypedPattern
                    (NamedPattern \<lparr>getName = ''x'', isLet = True, declImplicit = False\<rparr> False)
                    (NamedTypeRepr ''Int'') False)
                 (Some (ExprHandle (Some (OrdinaryExpr ''1'')))) DAK_Normal]
              False False),
         \<lparr>Toks = [], Diags = [Diagnostic tuple_ellipsis_init False],
          InVarOrLetPattern = IVOLP_NotInVarOrLet, NextIndex = 1, ParsedContexts = [],
          CreatedContexts = [DefaultArgumentContext 0 0],
          DestroyedContexts = [DefaultArgumentContext 0 0]\<rparr>)"
proof -
  have a: "parsePatternTuple 7 exampleCollab False True
     (initialParser [tok_l_paren, tok_identifier ''x'', tok_r_paren]) =
   Some (makeParserResult
           (ParenPattern
              (NamedPattern \<lparr>getName = ''x'', isLet = True, declImplicit = False\<rparr> False)
              False),
         initialParser [])"
    by code_simp
  have b: "parsePatternTuple 7 exampleCollab True True
     (initialParser [tok_l_paren, tok_identifier ''x'', tok_colon, tok_identifier ''Int'',
                     tok_equal, tok_other ''1'', tok_ellipsis, tok_r_paren]) =
   Some (makeParserResult
           (TuplePattern
              [TuplePatternElt
                 (TypedPattern
                    (NamedPattern \<lparr>getName = ''x'', isLet = True, declImplicit = False\<rparr> False)
                    (NamedTypeRepr ''Int'') False)
                 (Some (ExprHandle (Some (OrdinaryExpr ''1'')))) DAK_Normal]
              False False),
         \<lparr>Toks = [], Diags = [Diagnostic tuple_ellipsis_init False],
          InVarOrLetPattern = IVOLP_NotInVarOrLet, NextIndex = 1, ParsedContexts = [],
          CreatedContexts = [DefaultArgumentContext 0 0],
          DestroyedContexts = [DefaultArgumentContext 0 0]\<rparr>)"
    by code_simp
  show ?thesis using a b by simp
qed

text \<open>
  C3, amended. A valid input is \<open>(\<close>, then either \<open>)\<close> at once or \<open>N \<ge> 1\<close> elements
  \<open>es\<close>, each one parsed by \<open>parsePatternTupleElement\<close> and followed by a comma
  except the last, which is followed by \<open>)\<close> or by \<open>...\<close> and \<open>)\<close>. On such an input
  \<open>parsePatternTuple\<close> returns, for every large enough fuel, the success status and a
  node that holds exactly the \<open>N\<close> elements in source order: a \<open>Paren\<close> node around
  the element's pattern when \<open>N = 1\<close> and the element has no initializer and no accepted
  ellipsis, and otherwise a \<open>Tuple\<close> node with the elements \<open>es\<close>, marked variadic if
  and only if the trailing ellipsis is there and the last element is \<open>Typed\<close> and has
  no initializer. The empty input \<open>()\<close> gives the empty, non-variadic \<open>Tuple\<close>.
  Whatever the input, when an element is followed by an ellipsis the callback consumes
  it and returns success with the element appended; the ellipsis is recorded only when
  the element has no initializer, is \<open>Typed\<close> and \<open>)\<close> follows, and otherwise exactly
  one diagnostic is emitted and the recorded ellipsis location is left as it was. And a
  \<open>Tuple\<close> that \<open>parsePatternTuple\<close> returns marked variadic has a \<open>Typed\<close> last
  element without initializer.
\<close>

theorem parsePatternTuple_elements_in_order:
  "(Tok P = tok_l_paren \<and> validElements C d l (consumeToken P) es P1 \<and>
    (Tok P1 = tok_r_paren \<or> (Tok P1 = tok_ellipsis \<and> Tok (consumeToken P1) = tok_r_paren)) \<longrightarrow>
      (\<exists>n0. \<forall>n\<ge>n0.
         parsePatternTuple n C d l P =
           Some (makeParserResult
                   (if length es = 1 \<and> getInit (hd es) = None \<and> \<not> ellipsisAccepted (last es) P1
                    then ParenPattern (getPattern (hd es)) False
                    else TuplePattern es (ellipsisAccepted (last es) P1) False),
                 consumeToken (if Tok P1 = tok_ellipsis then afterEllipsis (last es) P1 else P1)))) \<and>
   (Tok P = tok_l_paren \<and> Tok (consumeToken P) = tok_r_paren \<longrightarrow>
      (\<forall>n\<ge>2. parsePatternTuple n C d l P =
                Some (makeParserResult (TuplePattern [] False False),
                      consumeToken (consumeToken P)))) \<and>
   (parsePatternTupleElement m C d l Q = Some ((s, Some e), Q1) \<and> Tok Q1 = tok_ellipsis \<longrightarrow>
      parsePatternTupleCallback (Suc m) C d l acc Q =
        Some (makeParserSuccess,
              (fst acc @ [e], if ellipsisAccepted e Q1 then getLoc Q1 else snd acc),
              afterEllipsis e Q1) \<and>
      Toks (afterEllipsis e Q1) = tl (Toks Q1) \<and>
      Diags (afterEllipsis e Q1) =
        Diags Q1 @
          (if ellipsisAccepted e Q1 then []
           else [Diagnostic (if getInit e \<noteq> None then tuple_ellipsis_init
                             else if \<not> isTyped (getPattern e) then untyped_pattern_ellipsis
                             else ellipsis_pattern_not_at_end) False])) \<and>
   (parsePatternTuple k C d l R = Some (res, R') \<and>
    getPtrOrNull res = Some (TuplePattern es' True i) \<longrightarrow>
      es' \<noteq> [] \<and> getInit (last es') = None \<and> isTyped (getPattern (last es')))"
proof (intro conjI impI)
  assume a: "Tok P = tok_l_paren \<and> validElements C d l (consumeToken P) es P1 \<and>
    (Tok P1 = tok_r_paren \<or> (Tok P1 = tok_ellipsis \<and> Tok (consumeToken P1) = tok_r_paren))"
  then have lp: "Tok P = tok_l_paren" and v: "validElements C d l (consumeToken P) es P1"
    and cl: "Tok P1 = tok_r_paren \<or> (Tok P1 = tok_ellipsis \<and> Tok (consumeToken P1) = tok_r_paren)"
    by simp_all
  from validElements_nonempty[OF v] have ne: "es \<noteq> []" .
  from v obtain j s0 e0 Q0 where
    "parsePatternTupleElement j C d l (consumeToken P) = Some ((s0, Some e0), Q0)"
    by (cases rule: validElements.cases) auto
  from parsePatternTupleElement_not_rparen[OF this]
  have nr: "Tok (consumeToken P) \<noteq> tok_r_paren" .
  from parseListLoop_valid[OF v cl, of makeParserSuccess "[]"] obtain n0 where
    loop: "\<forall>n\<ge>n0. parseListLoop n C d l makeParserSuccess ([], None) (consumeToken P) =
           Some (makeParserSuccess,
                 ([] @ es, if ellipsisAccepted (last es) P1 then getLoc P1 else None),
                 consumeToken (if Tok P1 = tok_ellipsis then afterEllipsis (last es) P1 else P1))"
    by blast
  have "parsePatternTuple n C d l P =
           Some (makeParserResult
                   (if length es = 1 \<and> getInit (hd es) = None \<and> \<not> ellipsisAccepted (last es) P1
                    then ParenPattern (getPattern (hd es)) False
                    else TuplePattern es (ellipsisAccepted (last es) P1) False),
                 consumeToken (if Tok P1 = tok_ellipsis then afterEllipsis (last es) P1 else P1))"
    if n: "Suc (Suc n0) \<le> n" for n
  proof -
    from n obtain j where j: "n = Suc (Suc j)" "n0 \<le> j"
      by (metis Suc_le_D Suc_le_mono)
    from loop j(2) have
      "parseListLoop j C d l makeParserSuccess ([], None) (consumeToken P) =
           Some (makeParserSuccess,
                 (es, if ellipsisAccepted (last es) P1 then getLoc P1 else None),
                 consumeToken (if Tok P1 = tok_ellipsis then afterEllipsis (last es) P1 else P1))"
      by simp
    with lp nr have pt: "parsePatternTuple n C d l P =
        Some (makeParserResultStatus makeParserSuccess
                (createSimple es (ellipsisAccepted (last es) P1)),
              consumeToken (if Tok P1 = tok_ellipsis then afterEllipsis (last es) P1 else P1))"
      unfolding j(1) by (simp add: getLoc_def)
    have cs: "createSimple es (ellipsisAccepted (last es) P1) =
                (if length es = 1 \<and> getInit (hd es) = None \<and> \<not> ellipsisAccepted (last es) P1
                 then ParenPattern (getPattern (hd es)) False
                 else TuplePattern es (ellipsisAccepted (last es) P1) False)"
      by (cases es) (auto simp: createSimple_def split: list.splits)
    show ?thesis unfolding pt cs by (simp add: makeParserResultStatus_def makeParserResult_def)
  qed
  then show "\<exists>n0. \<forall>n\<ge>n0.
         parsePatternTuple n C d l P =
           Some (makeParserResult
                   (if length es = 1 \<and> getInit (hd es) = None \<and> \<not> ellipsisAccepted (last es) P1
                    then ParenPattern (getPattern (hd es)) False
                    else TuplePattern es (ellipsisAccepted (last es) P1) False),
                 consumeToken (if Tok P1 = tok_ellipsis then afterEllipsis (last es) P1 else P1))"
    by blast
next
  assume a: "Tok P = tok_l_paren \<and> Tok (consumeToken P) = tok_r_paren"
  show "\<forall>n\<ge>2. parsePatternTuple n C d l P =
                Some (makeParserResult (TuplePattern [] False False),
                      consumeToken (consumeToken P))"
  proof (intro allI impI)
    fix n :: nat
    assume "2 \<le> n"
    then obtain j where "n = Suc (Suc j)"
      by (metis Suc_le_D Suc_le_mono numeral_2_eq_2)
    with a show "parsePatternTuple n C d l P =
                Some (makeParserResult (TuplePattern [] False False),
                      consumeToken (consumeToken P))"
      by (simp add: createSimple_def makeParserResultStatus_def makeParserResult_def)
  qed
next
  assume a: "parsePatternTupleElement m C d l Q = Some ((s, Some e), Q1) \<and> Tok Q1 = tok_ellipsis"
  then have el: "parsePatternTupleElement m C d l Q = Some ((s, Some e), Q1)"
    and t: "Tok Q1 = tok_ellipsis" by simp_all
  from parsePatternTupleCallback_dots[OF el t]
  show "parsePatternTupleCallback (Suc m) C d l acc Q =
        Some (makeParserSuccess,
              (fst acc @ [e], if ellipsisAccepted e Q1 then getLoc Q1 else snd acc),
              afterEllipsis e Q1)" .
  show "Toks (afterEllipsis e Q1) = tl (Toks Q1)"
    by (simp add: afterEllipsis_def consumeToken_def diagnose_def)
  show "Diags (afterEllipsis e Q1) =
        Diags Q1 @
          (if ellipsisAccepted e Q1 then []
           else [Diagnostic (if getInit e \<noteq> None then tuple_ellipsis_init
                             else if \<not> isTyped (getPattern e) then untyped_pattern_ellipsis
                             else ellipsis_pattern_not_at_end) False])"
    using t by (simp add: afterEllipsis_def ellipsisAccepted_def consumeToken_def diagnose_def)
next
  assume a: "parsePatternTuple k C d l R = Some (res, R') \<and>
    getPtrOrNull res = Some (TuplePattern es' True i)"
  from parsePatternTuple_variadic[of k C d l R res R' es' i] a
  show "es' \<noteq> []" "getInit (last es') = None" "isTyped (getPattern (last es'))"
    by (auto simp: isTyped_def)
qed

theorem parsePatternTuple_elements_in_order_witness:
  "Tok (initialParser [tok_l_paren, tok_identifier ''a'', tok_comma, tok_identifier ''b'',
                       tok_colon, tok_identifier ''Int'', tok_ellipsis, tok_r_paren]) = tok_l_paren \<and>
   validElements exampleCollab False True
     (consumeToken (initialParser [tok_l_paren, tok_identifier ''a'', tok_comma,
                                   tok_identifier ''b'', tok_colon, tok_identifier ''Int'',
                                   tok_ellipsis, tok_r_paren]))
     [TuplePatternElt
        (NamedPattern \<lparr>getName = ''a'', isLet = True, declImplicit = False\<rparr> False)
        None DAK_None,
      TuplePatternElt
        (TypedPattern
           (NamedPattern \<lparr>getName = ''b'', isLet = True, declImplicit = False\<rparr> False)
           (NamedTypeRepr ''Int'') False)
        None DAK_None]
     (initialParser [tok_ellipsis, tok_r_paren]) \<and>
   Tok (initialParser [tok_ellipsis, tok_r_paren]) = tok_ellipsis \<and>
   Tok (consumeToken (initialParser [tok_ellipsis, tok_r_paren])) = tok_r_paren \<and>
   (\<exists>n0. \<forall>n\<ge>n0.
      parsePatternTuple n exampleCollab False True
        (initialParser [tok_l_paren, tok_identifier ''a'', tok_comma, tok_identifier ''b'',
                        tok_colon, tok_identifier ''Int'', tok_ellipsis, tok_r_paren]) =
      Some (makeParserResult
              (TuplePattern
                 [TuplePatternElt
                    (NamedPattern \<lparr>getName = ''a'', isLet = True, declImplicit = False\<rparr> False)
                    None DAK_None,
                  TuplePatternElt
                    (TypedPattern
                       (NamedPattern \<lparr>getName = ''b'', isLet = True, declImplicit = False\<rparr> False)
                       (NamedTypeRepr ''Int'') False)
                    None DAK_None]
                 True False),
            initialParser [])) \<and>
   parsePatternTuple 8 exampleCollab False True
     (initialParser [tok_l_paren, tok_identifier ''a'', tok_comma, tok_identifier ''b'',
                     tok_colon, tok_identifier ''Int'', tok_ellipsis, tok_r_paren]) =
   Some (makeParserResult
           (TuplePattern
              [TuplePatternElt
                 (NamedPattern \<lparr>getName = ''a'', isLet = True, declImplicit = False\<rparr> False)
                 None DAK_None,
               TuplePatternElt
                 (TypedPattern
                    (NamedPattern \<lparr>getName = ''b'', isLet = True, declImplicit = False\<rparr> False)
                    (NamedTypeRepr ''Int'') False)
                 None DAK_None]
              True False),
         initialParser []) \<and>
   parsePatternTuple 2 exampleCollab False True (initialParser [tok_l_paren, tok_r_paren]) =
     Some (makeParserResult (TuplePattern [] False False), initialParser []) \<and>
   parsePatternTupleCallback 4 exampleCollab False True ([], None)
     (initialParser [tok_identifier ''y'', tok_ellipsis, tok_r_paren]) =
     Some (makeParserSuccess,
           ([TuplePatternElt
               (NamedPattern \<lparr>getName = ''y'', isLet = True, declImplicit = False\<rparr> False)
               None DAK_None], None),
           (initialParser [tok_r_paren])\<lparr>Diags := [Diagnostic untyped_pattern_ellipsis False]\<rparr>)"
proof -
  let ?a = "TuplePatternElt
        (NamedPattern \<lparr>getName = ''a'', isLet = True, declImplicit = False\<rparr> False)
        None DAK_None"
  let ?b = "TuplePatternElt
        (TypedPattern
           (NamedPattern \<lparr>getName = ''b'', isLet = True, declImplicit = False\<rparr> False)
           (NamedTypeRepr ''Int'') False)
        None DAK_None"
  let ?y = "TuplePatternElt
               (NamedPattern \<lparr>getName = ''y'', isLet = True, declImplicit = False\<rparr> False)
               None DAK_None"
  let ?P = "initialParser [tok_l_paren, tok_identifier ''a'', tok_comma, tok_identifier ''b'',
                       tok_colon, tok_identifier ''Int'', tok_ellipsis, tok_r_paren]"
  let ?Pa = "initialParser [tok_comma, tok_identifier ''b'',
                       tok_colon, tok_identifier ''Int'', tok_ellipsis, tok_r_paren]"
  let ?Pb = "initialParser [tok_ellipsis, tok_r_paren]"
  let ?Q = "initialParser [tok_identifier ''y'', tok_ellipsis, tok_r_paren]"
  let ?Q1 = "initialParser [tok_ellipsis, tok_r_paren]"
  have h1: "Tok ?P = tok_l_paren" by simp
  have c0: "consumeToken ?P = initialParser [tok_identifier ''a'', tok_comma, tok_identifier ''b'',
                       tok_colon, tok_identifier ''Int'', tok_ellipsis, tok_r_paren]"
    by (simp add: consumeToken_def initialParser_def)
  have c1: "consumeToken ?Pa = initialParser [tok_identifier ''b'',
                       tok_colon, tok_identifier ''Int'', tok_ellipsis, tok_r_paren]"
    by (simp add: consumeToken_def initialParser_def)
  have ea: "parsePatternTupleElement 3 exampleCollab False True (consumeToken ?P) =
              Some ((makeParserSuccess, Some ?a), ?Pa)"
    unfolding c0 by code_simp
  have eb: "parsePatternTupleElement 3 exampleCollab False True (consumeToken ?Pa) =
              Some ((makeParserSuccess, Some ?b), ?Pb)"
    unfolding c1 by code_simp
  have ta: "Tok ?Pa = tok_comma" by simp
  have h2: "validElements exampleCollab False True (consumeToken ?P) [?a, ?b] ?Pb"
    by (rule validElements.moreElements[OF ea ta]) (rule validElements.lastElement[OF eb])
  have h3: "Tok ?Pb = tok_ellipsis" by simp
  have h4: "Tok (consumeToken ?Pb) = tok_r_paren"
    by (simp add: consumeToken_def initialParser_def Tok_def)
  have acc: "ellipsisAccepted ?b ?Pb"
    using h3 h4 by (simp add: ellipsisAccepted_def isTyped_def)
  have fin: "consumeToken (afterEllipsis ?b ?Pb) = initialParser []"
    using h4 by (simp add: afterEllipsis_def isTyped_def consumeToken_def initialParser_def)
  from parsePatternTuple_elements_in_order[where P = ?P and C = exampleCollab and d = False
         and l = True and es = "[?a, ?b]" and ?P1.0 = ?Pb, THEN conjunct1, rule_format,
         OF conjI[OF h1 conjI[OF h2 disjI2[OF conjI[OF h3 h4]]]]]
  have r1: "\<exists>n0. \<forall>n\<ge>n0.
      parsePatternTuple n exampleCollab False True ?P =
      Some (makeParserResult (TuplePattern [?a, ?b] True False), initialParser [])"
    using acc fin h3 by simp
  have r2: "parsePatternTuple 8 exampleCollab False True ?P =
      Some (makeParserResult (TuplePattern [?a, ?b] True False), initialParser [])"
    by code_simp
  have e1: "Tok (initialParser [tok_l_paren, tok_r_paren]) = tok_l_paren \<and>
            Tok (consumeToken (initialParser [tok_l_paren, tok_r_paren])) = tok_r_paren"
    by (simp add: consumeToken_def initialParser_def Tok_def)
  from parsePatternTuple_elements_in_order[where P = "initialParser [tok_l_paren, tok_r_paren]"
         and C = exampleCollab and d = False and l = True,
         THEN conjunct2, THEN conjunct1, rule_format, OF e1, of 2]
  have r3: "parsePatternTuple 2 exampleCollab False True (initialParser [tok_l_paren, tok_r_paren]) =
     Some (makeParserResult (TuplePattern [] False False), initialParser [])"
    by (simp add: consumeToken_def initialParser_def)
  have ey: "parsePatternTupleElement 3 exampleCollab False True ?Q =
              Some ((makeParserSuccess, Some ?y), ?Q1)"
    by code_simp
  have na: "\<not> ellipsisAccepted ?y ?Q1" by (simp add: ellipsisAccepted_def isTyped_def)
  have ay: "afterEllipsis ?y ?Q1 =
              (initialParser [tok_r_paren])\<lparr>Diags := [Diagnostic untyped_pattern_ellipsis False]\<rparr>"
    by (simp add: afterEllipsis_def isTyped_def consumeToken_def diagnose_def initialParser_def)
  from parsePatternTuple_elements_in_order[where m = 3 and C = exampleCollab and d = False
         and l = True and Q = ?Q and s = makeParserSuccess and e = ?y and ?Q1.0 = ?Q1
         and acc = "([], None)",
         THEN conjunct2, THEN conjunct2, THEN conjunct1, rule_format, OF conjI[OF ey h3],
         THEN conjunct1]
  have r4: "parsePatternTupleCallback 4 exampleCollab False True ([], None) ?Q =
     Some (makeParserSuccess, ([?y], None),
           (initialParser [tok_r_paren])\<lparr>Diags := [Diagnostic untyped_pattern_ellipsis False]\<rparr>)"
    using na ay by (simp add: numeral_eq_Suc)
  show ?thesis
    apply (intro conjI)
    subgoal by (rule h1)
    subgoal by (rule h2)
    subgoal by (rule h3)
    subgoal by (rule h4)
    subgoal by (rule r1)
    subgoal by (rule r2)
    subgoal by (rule r3)
    subgoal by (rule r4)
    done
qed

end
